theory Spec2Isabelle
  imports Complex_Main "HOL-Library.Log_Nat"
begin

section \<open>JavaScript values\<close>

text \<open>
  A JSON number is a \<open>rat\<close>; a field that is missing, \<open>null\<close> or \<open>undefined\<close> is
  \<open>None\<close>. \<open>x || d\<close> yields \<open>d\<close> for a missing field and for the falsy number 0.
\<close>

definition js_or :: "rat option \<Rightarrow> rat \<Rightarrow> rat" where
  "js_or x d = (case x of None \<Rightarrow> d | Some v \<Rightarrow> if v = 0 then d else v)"

text \<open>What a failing operation throws.\<close>

datatype js_error = TypeError

text \<open>The fields of a CoinGecko market record that the monitor reads.\<close>

record coin =
  coin_id :: string
  current_price :: "rat option"
  high_24h :: "rat option"
  low_24h :: "rat option"
  total_volume :: "rat option"
  market_cap :: "rat option"
  market_cap_rank :: "rat option"
  price_change_percentage_1h_in_currency :: "rat option"
  price_change_percentage_24h_in_currency :: "rat option"
  price_change_percentage_7d_in_currency :: "rat option"
  price_change_percentage_30d_in_currency :: "rat option"
  sparkline_in_7d :: "rat option list option"

section \<open>Price history store\<close>

text \<open>
  \<open>priceHistory\<close> is a plain object: the map holds its own properties. A lookup of a key
  that is not an own property falls through to \<open>Object.prototype\<close>, whose members are
  listed here; each of them is truthy and has no method \<open>push\<close>.
\<close>

type_synonym price_history = "string \<rightharpoonup> rat list"










section \<open>JavaScript numbers\<close>

text \<open>
  Every arithmetic operation of the source yields the exact result rounded to a double.
  The rounding is the parameter \<open>R\<close> of the functions below: the identity gives exact
  arithmetic, \<open>fl64\<close> (defined further down) gives IEEE 754 binary64. A \<open>num\<close> is a
  number that may have left the finite ones, by a division by zero or by an overflow.
\<close>

type_synonym rounding = "rat \<Rightarrow> rat"

datatype num = Fin rat | NaN | PosInf | NegInf

definition js_div :: "rounding \<Rightarrow> rat \<Rightarrow> rat \<Rightarrow> num" where
  "js_div R a b =
     (if b = 0 then (if a = 0 then NaN else if 0 < a then PosInf else NegInf)
      else Fin (R (a / b)))"

text \<open>\<open>xs.reduce((a, b) => a + b, 0)\<close>\<close>

definition js_sum :: "rounding \<Rightarrow> rat list \<Rightarrow> rat" where
  "js_sum R xs = foldl (\<lambda>a b. R (a + b)) 0 xs"

text \<open>\<open>xs.slice(-n)\<close>: the last \<open>n\<close> elements, and all of them when \<open>n\<close> is 0.\<close>

definition slice_last :: "nat \<Rightarrow> 'a list \<Rightarrow> 'a list" where
  "slice_last n xs = (if n = 0 then xs else drop (length xs - n) xs)"

text \<open>Truthiness of a number or \<open>null\<close>: false for \<open>null\<close>, 0 and NaN.\<close>

fun truthy :: "num option \<Rightarrow> bool" where
  "truthy None = False"
| "truthy (Some (Fin v)) = (v \<noteq> 0)"
| "truthy (Some NaN) = False"
| "truthy (Some PosInf) = True"
| "truthy (Some NegInf) = True"

text \<open>
  A rounding is admissible when it is monotone and leaves the integers of magnitude up
  to \<open>2^53\<close> unchanged, as round-to-nearest does.
\<close>

definition rounding_ok :: "rounding \<Rightarrow> bool" where
  "rounding_ok R = ((\<forall>x y. x \<le> y \<longrightarrow> R x \<le> R y) \<and>
                    (\<forall>n::int. \<bar>n\<bar> \<le> 2 ^ 53 \<longrightarrow> R (of_int n) = of_int n))"

definition exact :: rounding where
  "exact x = x"

text \<open>
  IEEE 754 binary64 rounding, to nearest with ties to even, of an exact rational result,
  with gradual underflow: below \<open>2^-1022\<close> the doubles are the multiples of \<open>2^-1074\<close>.
  \<open>ilog2 x\<close> is the integer part of the binary logarithm of a positive \<open>x\<close>. A rounded
  result beyond the largest double is an infinity; \<open>to_num\<close> below applies that.
\<close>

definition round_half_even :: "rat \<Rightarrow> int" where
  "round_half_even m =
     (let f = \<lfloor>m\<rfloor>; r = m - of_int f
      in if r < 1 / 2 then f else if 1 / 2 < r then f + 1 else if even f then f else f + 1)"

definition ilog2 :: "rat \<Rightarrow> int" where
  "ilog2 x = (if 1 \<le> x then bitlen \<lfloor>x\<rfloor> - 1 else - bitlen (\<lceil>1 / x\<rceil> - 1))"

definition fl64 :: rounding where
  "fl64 x = (if x = 0 then 0
             else let e = max (ilog2 \<bar>x\<bar> - 52) (- 1074)
                  in of_int (round_half_even (x / 2 powi e)) * 2 powi e)"

text \<open>Comparisons of a \<open>num\<close> with a finite number; every comparison with NaN is false.\<close>

fun num_gt :: "num \<Rightarrow> rat \<Rightarrow> bool" where
  "num_gt (Fin v) c = (c < v)"
| "num_gt PosInf c = True"
| "num_gt _ c = False"

fun num_lt :: "num \<Rightarrow> rat \<Rightarrow> bool" where
  "num_lt (Fin v) c = (v < c)"
| "num_lt NegInf c = True"
| "num_lt _ c = False"

fun num_ge :: "num \<Rightarrow> rat \<Rightarrow> bool" where
  "num_ge (Fin v) c = (c \<le> v)"
| "num_ge PosInf c = True"
| "num_ge _ c = False"

fun num_le :: "num \<Rightarrow> rat \<Rightarrow> bool" where
  "num_le (Fin v) c = (v \<le> c)"
| "num_le NegInf c = True"
| "num_le _ c = False"

text \<open>
  Arithmetic that can leave the finite numbers. \<open>max_double\<close> is the largest finite
  double; a rounded result of greater magnitude is an infinity. The operations follow
  IEEE 754 on infinities and NaN. Zero carries no sign: the divisors of the code modelled
  with these operations are a count, a sum of non-negative terms and a number that is at
  least 1, none of which is a negative zero.
\<close>

definition max_double :: rat where
  "max_double = (2 ^ 53 - 1) * 2 ^ 971"

definition to_num :: "rat \<Rightarrow> num" where
  "to_num x = (if max_double < x then PosInf else if x < - max_double then NegInf else Fin x)"

fun num_neg :: "num \<Rightarrow> num" where
  "num_neg (Fin a) = Fin (- a)"
| "num_neg NaN = NaN"
| "num_neg PosInf = NegInf"
| "num_neg NegInf = PosInf"

fun num_abs :: "num \<Rightarrow> num" where
  "num_abs (Fin a) = Fin \<bar>a\<bar>"
| "num_abs NaN = NaN"
| "num_abs PosInf = PosInf"
| "num_abs NegInf = PosInf"

fun num_add :: "rounding \<Rightarrow> num \<Rightarrow> num \<Rightarrow> num" where
  "num_add R (Fin a) (Fin b) = to_num (R (a + b))"
| "num_add R (Fin a) PosInf = PosInf"
| "num_add R (Fin a) NegInf = NegInf"
| "num_add R PosInf (Fin b) = PosInf"
| "num_add R PosInf PosInf = PosInf"
| "num_add R NegInf (Fin b) = NegInf"
| "num_add R NegInf NegInf = NegInf"
| "num_add R _ _ = NaN"

definition num_sub :: "rounding \<Rightarrow> num \<Rightarrow> num \<Rightarrow> num" where
  "num_sub R a b = num_add R a (num_neg b)"

fun num_divide :: "rounding \<Rightarrow> num \<Rightarrow> num \<Rightarrow> num" where
  "num_divide R (Fin a) (Fin b) =
     (if b = 0 then (if a = 0 then NaN else if 0 < a then PosInf else NegInf)
      else to_num (R (a / b)))"
| "num_divide R (Fin a) PosInf = Fin 0"
| "num_divide R (Fin a) NegInf = Fin 0"
| "num_divide R PosInf (Fin b) = (if b < 0 then NegInf else PosInf)"
| "num_divide R NegInf (Fin b) = (if b < 0 then PosInf else NegInf)"
| "num_divide R _ _ = NaN"

text \<open>\<open>xs.reduce((a, b) => a + b, 0)\<close> on numbers that may be infinite.\<close>

definition num_sum :: "rounding \<Rightarrow> num list \<Rightarrow> num" where
  "num_sum R xs = foldl (num_add R) (Fin 0) xs"

section \<open>Indicator library\<close>

text \<open>
  The deltas, gains and losses of \<open>calculateRSI\<close>. The prices are finite; a difference
  of two of them can overflow.
\<close>

definition deltas_of :: "rounding \<Rightarrow> rat list \<Rightarrow> num list" where
  "deltas_of R prices =
     map (\<lambda>i. num_sub R (Fin (prices ! i)) (Fin (prices ! (i - 1)))) [1..<length prices]"

definition gains_of :: "num list \<Rightarrow> num list" where
  "gains_of deltas = map (\<lambda>delta. if num_gt delta 0 then delta else Fin 0) deltas"

definition losses_of :: "num list \<Rightarrow> num list" where
  "losses_of deltas = map (\<lambda>delta. if num_lt delta 0 then num_abs delta else Fin 0) deltas"

text \<open>\<open>avgGain\<close> and \<open>avgLoss\<close>: the sums of \<open>slice(0, period)\<close>, divided by the period.\<close>

definition avgGain :: "rounding \<Rightarrow> rat list \<Rightarrow> nat \<Rightarrow> num" where
  "avgGain R prices period =
     num_divide R (num_sum R (take period (gains_of (deltas_of R prices)))) (Fin (of_nat period))"

definition avgLoss :: "rounding \<Rightarrow> rat list \<Rightarrow> nat \<Rightarrow> num" where
  "avgLoss R prices period =
     num_divide R (num_sum R (take period (losses_of (deltas_of R prices)))) (Fin (of_nat period))"

text \<open>
  \<open>calculateRSI\<close>; \<open>None\<close> is \<open>null\<close>. With period 0 both averages are \<open>0 / 0\<close>, the
  test \<open>avgLoss === 0\<close> fails and the result is NaN. When the gains and the losses both
  sum to infinity, \<open>rs\<close> is \<open>Infinity / Infinity\<close> and the result is NaN as well.
\<close>

definition calculateRSI :: "rounding \<Rightarrow> rat list \<Rightarrow> nat \<Rightarrow> num option" where
  "calculateRSI R prices period =
     (if length prices < period + 1 then None
      else let gain = avgGain R prices period;
               loss = avgLoss R prices period
           in if loss = Fin 0 then Some (Fin 100)
              else let rs = num_divide R gain loss;
                       rsi = num_sub R (Fin 100) (num_divide R (Fin 100) (num_add R (Fin 1) rs))
                   in Some rsi)"

definition calculateSMA :: "rounding \<Rightarrow> rat list \<Rightarrow> nat \<Rightarrow> num option" where
  "calculateSMA R prices period =
     (if length prices < period then None
      else Some (js_div R (js_sum R (slice_last period prices)) (of_nat period)))"

text \<open>
  \<open>calculateEMA\<close>: the seed is the mean of the first \<open>period\<close> prices, the loop runs over
  the remaining ones. A seed that is not finite (period 0) stays so.
\<close>

definition ema_step :: "rounding \<Rightarrow> rat \<Rightarrow> rat \<Rightarrow> rat \<Rightarrow> rat" where
  "ema_step R multiplier ema price = R (R (price * multiplier) + R (ema * R (1 - multiplier)))"

definition calculateEMA :: "rounding \<Rightarrow> rat list \<Rightarrow> nat \<Rightarrow> num option" where
  "calculateEMA R prices period =
     (if length prices < period then None
      else let multiplier = R (2 / R (of_nat period + 1))
           in case js_div R (js_sum R (take period prices)) (of_nat period) of
                Fin seed \<Rightarrow> Some (Fin (foldl (ema_step R multiplier) seed (drop period prices)))
              | other \<Rightarrow> Some other)"

record macd_result =
  macd :: rat
  signal :: rat
  histogram :: rat

text \<open>
  \<open>calculateMACD\<close>. The literals \<open>0.2\<close> and \<open>0.8\<close> are the roundings of 1/5 and 4/5.
  \<open>!fastEMA || !slowEMA\<close> rejects \<open>null\<close>, 0 and NaN; an exponential average is never
  infinite, its seed being a quotient with numerator 0 when the period is 0.
\<close>

definition calculateMACD :: "rounding \<Rightarrow> rat list \<Rightarrow> nat \<Rightarrow> nat \<Rightarrow> macd_result option" where
  "calculateMACD R prices fastPeriod slowPeriod =
     (if length prices < slowPeriod then None
      else case (calculateEMA R prices fastPeriod, calculateEMA R prices slowPeriod) of
             (Some (Fin fastEMA), Some (Fin slowEMA)) \<Rightarrow>
               if fastEMA = 0 \<or> slowEMA = 0 then None
               else let macdLine = R (fastEMA - slowEMA);
                        signalLine = R (R (macdLine * R (1 / 5)) + R (macdLine * R (4 / 5)));
                        histogram = R (macdLine - signalLine)
                    in Some \<lparr>macd = macdLine, signal = signalLine, histogram = histogram\<rparr>
           | _ \<Rightarrow> None)"

record bands =
  upper :: num
  middle :: num
  lower :: num
  bandwidth :: num

text \<open>
  \<open>calculateBollingerBands\<close>; \<open>msqrt\<close> stands for \<open>Math.sqrt\<close>. An infinite average
  arises only with period 0 and a non-zero sum; the deviation is then infinite as well.
\<close>

definition calculateBollingerBands ::
  "rounding \<Rightarrow> (rat \<Rightarrow> rat) \<Rightarrow> rat list \<Rightarrow> nat \<Rightarrow> rat \<Rightarrow> bands option" where
  "calculateBollingerBands R msqrt prices period stdDev =
     (if length prices < period then None
      else case calculateSMA R prices period of
             Some (Fin sma) \<Rightarrow>
               if sma = 0 then None
               else let recentPrices = slice_last period prices;
                        variance = R (foldl (\<lambda>acc price. R (acc + R ((R (price - sma)) ^ 2)))
                                        0 recentPrices / of_nat period);
                        standardDeviation = msqrt variance;
                        width = R (standardDeviation * stdDev)
                    in Some \<lparr>upper = Fin (R (sma + width)), middle = Fin sma,
                             lower = Fin (R (sma - width)),
                             bandwidth = Fin (R (R (R (R (sma + width) - R (sma - width)) / sma) * 100))\<rparr>
           | Some PosInf \<Rightarrow> Some \<lparr>upper = PosInf, middle = PosInf, lower = NaN, bandwidth = NaN\<rparr>
           | Some NegInf \<Rightarrow> Some \<lparr>upper = NaN, middle = NegInf, lower = NegInf, bandwidth = NaN\<rparr>
           | _ \<Rightarrow> None)"

text \<open>
  The oscillator as the specification words it: average gain and loss over the most
  recent \<open>period\<close> deltas. It differs from \<open>calculateRSI\<close> in the slice only.
\<close>

definition rsi_most_recent :: "rounding \<Rightarrow> rat list \<Rightarrow> nat \<Rightarrow> num option" where
  "rsi_most_recent R prices period =
     (if length prices < period + 1 then None
      else let gain = num_divide R (num_sum R (slice_last period (gains_of (deltas_of R prices))))
                        (Fin (of_nat period));
               loss = num_divide R (num_sum R (slice_last period (losses_of (deltas_of R prices))))
                        (Fin (of_nat period))
           in if loss = Fin 0 then Some (Fin 100)
              else let rs = num_divide R gain loss
                   in Some (num_sub R (Fin 100) (num_divide R (Fin 100) (num_add R (Fin 1) rs))))"

text \<open>A double near the top of the range, \<open>1.5 * 2^1023\<close>.\<close>

definition big :: rat where
  "big = 3 * 2 ^ 1022"

section \<open>Technical analysis signals\<close>

datatype strength = Weak | Moderate | Strong

text \<open>The signal strings of \<open>calculateTechnicalAnalysis\<close>.\<close>

datatype tech_signal =
    BullishMAAlignment | BearishMAAlignment
  | PriceAtLowerBand | PriceAtUpperBand
  | MACDBullishCrossover | MACDBearishCrossover
  | NearSupport strength | NearResistance strength

record levels =
  resistance :: rat
  support :: rat
  level_strength :: strength

text \<open>
  \<open>calculateSupportResistance\<close>, without the fields \<open>pivot\<close>, \<open>maxPrice\<close> and
  \<open>minPrice\<close>, which no signal reads.
\<close>

definition calculateSupportResistance :: "rounding \<Rightarrow> coin \<Rightarrow> rat list \<Rightarrow> levels" where
  "calculateSupportResistance R c prices =
     (let currentPrice = js_or (current_price c) 0;
          high24h = js_or (high_24h c) 0;
          low24h = js_or (low_24h c) 0
      in if length prices < 20 then
           \<lparr>resistance = high24h, support = low24h, level_strength = Weak\<rparr>
         else
           let recentPrices = slice_last 20 prices;
               pivot = R (R (R (high24h + low24h) + currentPrice) / 3);
               resistance1 = R (R (2 * pivot) - low24h);
               support1 = R (R (2 * pivot) - high24h);
               touchCount = length (filter (\<lambda>price.
                   num_lt (js_div R \<bar>R (price - resistance1)\<bar> resistance1) (R (1 / 50)) \<or>
                   num_lt (js_div R \<bar>R (price - support1)\<bar> support1) (R (1 / 50)))
                 recentPrices)
           in \<lparr>resistance = resistance1, support = support1,
               level_strength = (if touchCount \<ge> 3 then Strong
                                 else if touchCount \<ge> 2 then Moderate else Weak)\<rparr>)"

text \<open>The four signal blocks, in the order of the source.\<close>

definition ma_signals :: "rat \<Rightarrow> num option \<Rightarrow> num option \<Rightarrow> tech_signal list" where
  "ma_signals currentPrice sma20 sma50 =
     (if truthy sma20 \<and> truthy sma50 then
        (case (sma20, sma50) of
           (Some (Fin a), Some (Fin b)) \<Rightarrow>
             if currentPrice > a \<and> a > b then [BullishMAAlignment]
             else if currentPrice < a \<and> a < b then [BearishMAAlignment]
             else []
         | _ \<Rightarrow> [])
      else [])"

definition bollinger_signals :: "rat \<Rightarrow> bands option \<Rightarrow> tech_signal list" where
  "bollinger_signals currentPrice bollinger =
     (case bollinger of
        None \<Rightarrow> []
      | Some b \<Rightarrow>
          if num_ge (lower b) currentPrice then [PriceAtLowerBand]
          else if num_le (upper b) currentPrice then [PriceAtUpperBand]
          else [])"

definition macd_signals :: "macd_result option \<Rightarrow> tech_signal list" where
  "macd_signals m =
     (case m of
        None \<Rightarrow> []
      | Some r \<Rightarrow>
          if macd r > signal r \<and> histogram r > 0 then [MACDBullishCrossover]
          else if macd r < signal r \<and> histogram r < 0 then [MACDBearishCrossover]
          else [])"

text \<open>A \<open>num\<close> times 100.\<close>

fun times100 :: "rounding \<Rightarrow> num \<Rightarrow> num" where
  "times100 R (Fin v) = Fin (R (v * 100))"
| "times100 R other = other"

definition level_signals :: "rounding \<Rightarrow> rat \<Rightarrow> levels \<Rightarrow> tech_signal list" where
  "level_signals R currentPrice sr =
     (let distanceToSupport =
            (if support sr \<noteq> 0
             then times100 R (js_div R (R (currentPrice - support sr)) (support sr)) else Fin 0);
          distanceToResistance =
            (if resistance sr \<noteq> 0
             then times100 R (js_div R (R (resistance sr - currentPrice)) currentPrice) else Fin 0)
      in (if num_lt distanceToSupport 2 \<and> num_gt distanceToSupport 0
          then [NearSupport (level_strength sr)] else [])
         @ (if num_lt distanceToResistance 2 \<and> num_gt distanceToResistance 0
            then [NearResistance (level_strength sr)] else []))"

text \<open>The price series that \<open>calculateTechnicalAnalysis\<close> works on.\<close>

definition analysis_prices :: "price_history \<Rightarrow> coin \<Rightarrow> rat list" where
  "analysis_prices ph c =
     (let prices = (case ph (coin_id c) of None \<Rightarrow> [] | Some xs \<Rightarrow> xs)
      in if length prices < 20 then
           (case sparkline_in_7d c of
              None \<Rightarrow> prices
            | Some sp \<Rightarrow>
                let sparklinePrices = List.map_filter (\<lambda>p. p) sp
                in if length sparklinePrices \<ge> 20 then sparklinePrices else prices)
         else prices)"

text \<open>
  \<open>calculateTechnicalAnalysis\<close>, reduced to its field \<open>technicalSignals\<close>; \<open>None\<close> is the
  result \<open>{available: false}\<close>.
\<close>

definition calculateTechnicalAnalysis ::
  "rounding \<Rightarrow> (rat \<Rightarrow> rat) \<Rightarrow> price_history \<Rightarrow> coin \<Rightarrow> tech_signal list option" where
  "calculateTechnicalAnalysis R msqrt ph c =
     (let prices = analysis_prices ph c;
          currentPrice = js_or (current_price c) 0
      in if length prices < 20 then None
         else Some (ma_signals currentPrice (calculateSMA R prices 20) (calculateSMA R prices 50)
                    @ bollinger_signals currentPrice (calculateBollingerBands R msqrt prices 20 2)
                    @ macd_signals (calculateMACD R prices 12 26)
                    @ level_signals R currentPrice (calculateSupportResistance R c prices)))"

text \<open>A coin whose stored history is 25 prices of 0 followed by a price of 26.\<close>

definition listed_coin :: coin where
  "listed_coin =
     \<lparr>coin_id = ''listed'', current_price = Some 26, high_24h = Some 26, low_24h = Some 26,
      total_volume = Some 1000000, market_cap = Some 50000000, market_cap_rank = Some 400,
      price_change_percentage_1h_in_currency = None,
      price_change_percentage_24h_in_currency = None,
      price_change_percentage_7d_in_currency = None,
      price_change_percentage_30d_in_currency = None, sparkline_in_7d = None\<rparr>"

definition listed_prices :: "rat list" where
  "listed_prices = replicate 25 0 @ [26]"

section \<open>Long-horizon classifier\<close>

text \<open>
  The reason strings of \<open>analyzeHTFInvestment\<close> and of its stabilised variant, one
  constructor for each. The two oscillator strings carry the value they print.
\<close>

datatype htf_signal =
    StrongMonthlyUptrend | PositiveMonthlyTrend | ModerateMonthlyGrowth
  | AcceleratingMomentum | StrongRecovery | ModerateRecovery | SustainedGrowth
  | LargeCap | LargeMidCap | MidCap | ConsistentVolume | AdequateVolume
  | HealthyRSI num | OversoldRSI num
  | VeryLowRank | LowerRank | Top30 | Top50 | Top100
  | ExtremePump | RecentSpike | MultiTimeframeAlignment | StableWeekly
  | ConsistentPerformer | PersistentCandidate | HysteresisMaintained

text \<open>The running \<open>score\<close> and \<open>signals\<close>. Scores are sums of small integers.\<close>

type_synonym htf_acc = "int \<times> htf_signal list"

definition award :: "int \<Rightarrow> htf_signal \<Rightarrow> htf_acc \<Rightarrow> htf_acc" where
  "award points sig acc = (fst acc + points, snd acc @ [sig])"

text \<open>
  The series the classifier hands to the oscillator: the stored history, or the non-null
  sparkline prices when the history has at most 14 points and the sparkline more.
\<close>

definition htf_rsi_prices :: "price_history \<Rightarrow> coin \<Rightarrow> rat list" where
  "htf_rsi_prices ph c =
     (let rsiPrices = (case ph (coin_id c) of None \<Rightarrow> [] | Some xs \<Rightarrow> xs)
      in if length rsiPrices \<le> 14 then
           (case sparkline_in_7d c of
              None \<Rightarrow> rsiPrices
            | Some sp \<Rightarrow>
                let sparklinePrices = List.map_filter (\<lambda>p. p) sp
                in if length sparklinePrices > 14 then sparklinePrices else rsiPrices)
         else rsiPrices)"

text \<open>\<open>analyzeHTFInvestment\<close> up to and including the short-term pump rule.\<close>

definition htf_before_filter :: "rounding \<Rightarrow> price_history \<Rightarrow> coin \<Rightarrow> htf_acc" where
  "htf_before_filter R ph c =
     (let priceChange7d = js_or (price_change_percentage_7d_in_currency c) 0;
          priceChange30d = js_or (price_change_percentage_30d_in_currency c) 0;
          priceChange1h = js_or (price_change_percentage_1h_in_currency c) 0;
          priceChange24h = js_or (price_change_percentage_24h_in_currency c) 0;
          volume = js_or (total_volume c) 0;
          marketCap = js_or (market_cap c) 1;
          marketCapRank = js_or (market_cap_rank c) 999;
          a0 = (0, []);
          a1 = (if priceChange30d > 20 \<and> priceChange7d > 5 then award 5 StrongMonthlyUptrend a0
                else if priceChange30d > 10 \<and> priceChange7d > 0 then award 4 PositiveMonthlyTrend a0
                else if priceChange30d > 5 \<and> priceChange7d > - 5 then award 2 ModerateMonthlyGrowth a0
                else a0);
          a2 = (if priceChange7d > 15 \<and> priceChange30d > 25 then award 4 AcceleratingMomentum a1
                else a1);
          a3 = (if priceChange30d < - 20 \<and> priceChange7d > 10 then award 5 StrongRecovery a2
                else if priceChange30d < - 10 \<and> priceChange7d > 5 then award 3 ModerateRecovery a2
                else a2);
          a4 = (if priceChange7d > 3 \<and> priceChange30d > 10 then award 3 SustainedGrowth a3 else a3);
          a5 = (if marketCap > 1000000000 then award 3 LargeCap a4
                else if marketCap > 500000000 then award 2 LargeMidCap a4
                else if marketCap > 100000000 then award 1 MidCap a4
                else a4);
          volumeRatio = R (volume / marketCap);
          a6 = (if volumeRatio > R (1 / 100) \<and> volumeRatio < R (1 / 5) then award 2 ConsistentVolume a5
                else if volumeRatio > R (1 / 200) then award 1 AdequateVolume a5
                else a5);
          rsiPrices = htf_rsi_prices ph c;
          a7 = (if length rsiPrices > 14 then
                  (case calculateRSI R rsiPrices 14 of
                     None \<Rightarrow> a6
                   | Some rsi \<Rightarrow>
                       if num_gt rsi 35 \<and> num_lt rsi 75 then award 2 (HealthyRSI rsi) a6
                       else if num_lt rsi 35 then award 3 (OversoldRSI rsi) a6
                       else a6)
                else a6);
          a8 = (if marketCapRank > 300 then award (- 4) VeryLowRank a7
                else if marketCapRank > 150 then award (- 2) LowerRank a7
                else if marketCapRank \<le> 30 then award 3 Top30 a7
                else if marketCapRank \<le> 50 then award 2 Top50 a7
                else if marketCapRank \<le> 100 then award 1 Top100 a7
                else a7)
      in if priceChange24h > 30 then award (- 2) ExtremePump a8
         else if priceChange1h > 15 then award (- 1) RecentSpike a8
         else a8)"

text \<open>The quality filter: \<open>score = Math.max(0, score - 6)\<close> for a small or illiquid asset.\<close>

definition htf_liquidity_filter :: "coin \<Rightarrow> htf_acc \<Rightarrow> htf_acc" where
  "htf_liquidity_filter c acc =
     (let volume = js_or (total_volume c) 0;
          marketCap = js_or (market_cap c) 1
      in if marketCap < 100000000 \<or> volume < 5000000 then (max 0 (fst acc - 6), snd acc)
         else acc)"

text \<open>The two bonuses that follow the filter.\<close>

definition htf_alignment :: "coin \<Rightarrow> int \<Rightarrow> bool" where
  "htf_alignment c score =
     (js_or (price_change_percentage_30d_in_currency c) 0 > 0 \<and>
      js_or (price_change_percentage_7d_in_currency c) 0 > - 5 \<and> score \<ge> 4)"

definition htf_stable :: "coin \<Rightarrow> bool" where
  "htf_stable c =
     (\<bar>js_or (price_change_percentage_7d_in_currency c) 0\<bar> < 20 \<and>
      js_or (price_change_percentage_30d_in_currency c) 0 > 5)"

definition htf_bonuses :: "coin \<Rightarrow> htf_acc \<Rightarrow> htf_acc" where
  "htf_bonuses c acc =
     (let b1 = (if htf_alignment c (fst acc) then award 2 MultiTimeframeAlignment acc else acc)
      in if htf_stable c then award 1 StableWeekly b1 else b1)"

definition analyzeHTFInvestment :: "rounding \<Rightarrow> price_history \<Rightarrow> coin \<Rightarrow> htf_acc" where
  "analyzeHTFInvestment R ph c = htf_bonuses c (htf_liquidity_filter c (htf_before_filter R ph c))"

text \<open>
  The per-asset history of the stabilised classifier. \<open>now\<close> is the value of the clock,
  in place of the ISO string of the source.
\<close>

record htf_entry =
  entry_score :: rat
  entry_timestamp :: nat
  entry_signals :: "htf_signal list"

record htf_data =
  scores :: "htf_entry list"
  firstSeen :: nat
  lastUpdated :: nat

type_synonym htf_history = "string \<rightharpoonup> htf_data"

record htf_stability =
  stab_avgScore :: rat
  stab_variance :: rat
  stab_consistency :: int
  stab_dataPoints :: nat

record htf_result =
  res_score :: rat
  res_signals :: "htf_signal list"
  res_stability :: htf_stability

text \<open>\<open>Math.round\<close>: the nearest integer, halves upwards.\<close>

definition js_round :: "rat \<Rightarrow> int" where
  "js_round x = \<lfloor>x + 1 / 2\<rfloor>"

text \<open>
  The locals of \<open>analyzeHTFInvestmentWithStability\<close> computed from \<open>recentScores\<close>, the
  scores retained after the push, and from the current raw score.
\<close>

definition htf_avgScore :: "rounding \<Rightarrow> rat list \<Rightarrow> rat" where
  "htf_avgScore R recentScores = R (js_sum R recentScores / of_nat (length recentScores))"

definition htf_scoreVariance :: "rounding \<Rightarrow> rat list \<Rightarrow> rat" where
  "htf_scoreVariance R recentScores =
     R (foldl (\<lambda>sum score. R (sum + R ((R (score - htf_avgScore R recentScores)) ^ 2)))
          0 recentScores / of_nat (length recentScores))"

definition qualifyingScores :: "rat list \<Rightarrow> nat" where
  "qualifyingScores recentScores = length (filter (\<lambda>score. score \<ge> 5) recentScores)"

definition consistencyRatio :: "rounding \<Rightarrow> rat list \<Rightarrow> rat" where
  "consistencyRatio R recentScores =
     R (of_nat (qualifyingScores recentScores) / of_nat (length recentScores))"

definition stability_bonus :: "rounding \<Rightarrow> rat list \<Rightarrow> bool" where
  "stability_bonus R recentScores =
     (consistencyRatio R recentScores \<ge> R (7 / 10) \<and> htf_avgScore R recentScores \<ge> 5)"

definition persistence_bonus :: "rounding \<Rightarrow> rat list \<Rightarrow> bool" where
  "persistence_bonus R recentScores =
     (length recentScores \<ge> 5 \<and> consistencyRatio R recentScores \<ge> R (3 / 5))"

definition hysteresis_applies :: "rat list \<Rightarrow> rat \<Rightarrow> bool" where
  "hysteresis_applies recentScores currentScore =
     (qualifyingScores recentScores \<ge> 3 \<and> currentScore \<ge> 4)"

definition stabilizedScore :: "rounding \<Rightarrow> rat list \<Rightarrow> rat \<Rightarrow> rat" where
  "stabilizedScore R recentScores currentScore =
     (let s0 = htf_avgScore R recentScores;
          s1 = (if stability_bonus R recentScores then R (s0 + 1) else s0);
          s2 = (if persistence_bonus R recentScores then R (s1 + 1 / 2) else s1)
      in if hysteresis_applies recentScores currentScore then max s2 5 else s2)"

text \<open>\<open>Math.round(x * 10) / 10\<close>\<close>

definition round1 :: "rounding \<Rightarrow> rat \<Rightarrow> rat" where
  "round1 R x = R (of_int (js_round (R (x * 10))) / 10)"

text \<open>
  \<open>analyzeHTFInvestmentWithStability\<close>. The array \<open>currentAnalysis.signals\<close> is the one
  stored in the pushed entry, so the signals appended after the push are in the stored
  entry too. The unused local \<open>scoreStability\<close> is left out.
\<close>

definition analyzeHTFInvestmentWithStability ::
  "rounding \<Rightarrow> price_history \<Rightarrow> htf_history \<Rightarrow> nat \<Rightarrow> coin \<Rightarrow> htf_result \<times> htf_history" where
  "analyzeHTFInvestmentWithStability R ph hh now c =
     (let coinId = coin_id c;
          currentAnalysis = analyzeHTFInvestment R ph c;
          currentScore = of_int (fst currentAnalysis);
          htfData = (case hh coinId of
                       None \<Rightarrow> \<lparr>scores = [], firstSeen = now, lastUpdated = now\<rparr>
                     | Some d \<Rightarrow> d);
          pushed = map entry_score (scores htfData) @ [currentScore];
          recentScores = (if length pushed > 10 then tl pushed else pushed);
          signals = snd currentAnalysis
                    @ (if stability_bonus R recentScores then [ConsistentPerformer] else [])
                    @ (if persistence_bonus R recentScores then [PersistentCandidate] else [])
                    @ (if hysteresis_applies recentScores currentScore then [HysteresisMaintained]
                       else []);
          entry = \<lparr>entry_score = currentScore, entry_timestamp = now, entry_signals = signals\<rparr>;
          kept = (if length (scores htfData) + 1 > 10 then tl (scores htfData @ [entry])
                  else scores htfData @ [entry]);
          result = \<lparr>res_score = round1 R (stabilizedScore R recentScores currentScore),
                    res_signals = signals,
                    res_stability =
                      \<lparr>stab_avgScore = round1 R (htf_avgScore R recentScores),
                       stab_variance = round1 R (htf_scoreVariance R recentScores),
                       stab_consistency = js_round (R (consistencyRatio R recentScores * 100)),
                       stab_dataPoints = length recentScores\<rparr>\<rparr>
      in (result, hh(coinId \<mapsto> htfData\<lparr>scores := kept, lastUpdated := now\<rparr>)))"

text \<open>The raw scores retained for an asset after a call.\<close>

definition retained_scores :: "htf_history \<Rightarrow> string \<Rightarrow> rat list" where
  "retained_scores hh cid = (case hh cid of None \<Rightarrow> [] | Some d \<Rightarrow> map entry_score (scores d))"

section \<open>Cycle-phase stabiliser\<close>

datatype phase_name =
  CycleTopWarning | LateCycle | CycleBottomOpportunity | EarlyCycle | MidCycle

record phase_info =
  phase :: phase_name
  description :: string
  action :: string

text \<open>
  The overall cycle; the two scores are the numbers that \<open>parseFloat\<close> reads from the
  strings \<open>overallRiskScore\<close> and \<open>overallOpportunityScore\<close>, taken to be finite.
\<close>

record overall_cycle =
  overallRiskScore :: rat
  overallOpportunityScore :: rat
  cycleBias :: string
  cycleStrength :: rat

record cycle_entry = phase_info +
  timestamp :: nat
  risk :: rat
  opportunity :: rat
  entry_bias :: string
  entry_strength :: rat

record cycle_stability =
  dominantPhase :: phase_name
  stabilityRatio :: int
  recentSwitches :: nat
  avgRisk :: rat
  avgOpportunity :: rat
  riskVolatility :: rat
  opportunityVolatility :: rat

record cycle_phase = phase_info +
  stability :: cycle_stability

definition determineCyclePhase :: "overall_cycle \<Rightarrow> phase_info" where
  "determineCyclePhase oc =
     (let risk' = overallRiskScore oc; opportunity' = overallOpportunityScore oc
      in if risk' > 8 \<and> opportunity' < 3 then
           \<lparr>phase = CycleTopWarning,
            description = ''High risk of cycle top - consider taking profits'',
            action = ''Reduce Risk''\<rparr>
         else if risk' > 6 \<and> opportunity' < 5 then
           \<lparr>phase = LateCycle, description = ''Advanced cycle stage - be cautious'',
            action = ''Monitor Closely''\<rparr>
         else if risk' < 4 \<and> opportunity' > 7 then
           \<lparr>phase = CycleBottomOpportunity,
            description = ''High probability cycle bottom - accumulation zone'',
            action = ''Accumulate''\<rparr>
         else if risk' < 5 \<and> opportunity' > 5 then
           \<lparr>phase = EarlyCycle, description = ''Early cycle stage - good entry opportunities'',
            action = ''Buy Dips''\<rparr>
         else
           \<lparr>phase = MidCycle, description = ''Middle of cycle - balanced risk/reward'',
            action = ''Hold & Monitor''\<rparr>)"

text \<open>
  \<open>countCycleSwitches\<close>: the phase changes between neighbours among the first
  \<open>min(length, 8)\<close> entries of the history.
\<close>

definition countCycleSwitches :: "cycle_entry list \<Rightarrow> nat" where
  "countCycleSwitches h =
     (if length h < 2 then 0
      else length (filter (\<lambda>i. phase (h ! i) \<noteq> phase (h ! (i - 1))) [1..<min (length h) 8]))"

text \<open>
  The keys of \<open>phaseCounts\<close> in insertion order (first occurrences), the count of a key,
  and the \<open>reduce\<close> that picks the dominant key: a later key replaces the current one
  unless the current one has strictly more occurrences.
\<close>

definition phase_keys :: "'a list \<Rightarrow> 'a list" where
  "phase_keys recentPhases = rev (remdups (rev recentPhases))"

definition dominant_of :: "'a list \<Rightarrow> 'a option" where
  "dominant_of recentPhases =
     (case phase_keys recentPhases of
        [] \<Rightarrow> None
      | k # ks \<Rightarrow>
          Some (foldl (\<lambda>a b. if count_list recentPhases a > count_list recentPhases b then a else b)
                  k ks))"

text \<open>The mean of a field over \<open>recentEntries\<close>.\<close>

definition mean_of :: "rounding \<Rightarrow> rat list \<Rightarrow> rat" where
  "mean_of R xs = R (js_sum R xs / of_nat (length xs))"

text \<open>The entry that a call pushes, and the history it leaves.\<close>

definition cycleEntry :: "nat \<Rightarrow> overall_cycle \<Rightarrow> cycle_entry" where
  "cycleEntry now oc =
     (let currentPhase = determineCyclePhase oc
      in \<lparr>phase = phase currentPhase, description = description currentPhase,
          action = action currentPhase, timestamp = now,
          risk = overallRiskScore oc, opportunity = overallOpportunityScore oc,
          entry_bias = cycleBias oc, entry_strength = cycleStrength oc\<rparr>)"

definition push_cycle :: "cycle_entry list \<Rightarrow> cycle_entry \<Rightarrow> cycle_entry list" where
  "push_cycle h e = (let pushed = h @ [e] in if length pushed > 12 then tl pushed else pushed)"

text \<open>The fall-through return: the raw phase with neutral stability metrics.\<close>

definition raw_phase :: "cycle_entry list \<Rightarrow> overall_cycle \<Rightarrow> cycle_phase" where
  "raw_phase h oc =
     (let currentPhase = determineCyclePhase oc
      in \<lparr>phase = phase currentPhase, description = description currentPhase,
          action = action currentPhase,
          stability = \<lparr>dominantPhase = phase currentPhase, stabilityRatio = 100,
                        recentSwitches = countCycleSwitches h,
                        avgRisk = overallRiskScore oc, avgOpportunity = overallOpportunityScore oc,
                        riskVolatility = 0, opportunityVolatility = 0\<rparr>\<rparr>)"

text \<open>
  \<open>determineCyclePhaseWithStability\<close>: the value returned (\<open>None\<close> is \<open>null\<close>) or the
  error thrown, and the history left behind. Reading \<open>dominantEntry.description\<close> throws
  when \<open>find\<close> returns \<open>undefined\<close>.
\<close>

definition determineCyclePhaseWithStability ::
  "rounding \<Rightarrow> cycle_entry list \<Rightarrow> nat \<Rightarrow> overall_cycle option
     \<Rightarrow> (js_error + cycle_phase option) \<times> cycle_entry list" where
  "determineCyclePhaseWithStability R cycleHistory now overallCycle =
     (case overallCycle of
        None \<Rightarrow> (Inr None, cycleHistory)
      | Some oc \<Rightarrow>
          let risk' = overallRiskScore oc;
              opportunity' = overallOpportunityScore oc;
              h = push_cycle cycleHistory (cycleEntry now oc);
              recentPhases = map phase (slice_last 8 h);
              recentEntries = slice_last 5 h
          in case (if length h \<ge> 3 then dominant_of recentPhases else None) of
               None \<Rightarrow> (Inr (Some (raw_phase h oc)), h)
             | Some dominant \<Rightarrow>
                 let dominantCount = count_list recentPhases dominant;
                     phaseStability = R (of_nat dominantCount / of_nat (length recentPhases));
                     avgRisk' = mean_of R (map risk recentEntries);
                     avgOpportunity' = mean_of R (map opportunity recentEntries);
                     riskDiff = \<bar>R (risk' - avgRisk')\<bar>;
                     opportunityDiff = \<bar>R (opportunity' - avgOpportunity')\<bar>
                 in if phaseStability > R (3 / 5) \<and> riskDiff < 2 \<and> opportunityDiff < 2 then
                      (case find (\<lambda>entry. phase entry = dominant) h of
                         None \<Rightarrow> (Inl TypeError, h)
                       | Some dominantEntry \<Rightarrow>
                           (Inr (Some
                              \<lparr>phase = dominant,
                               description = description dominantEntry @ '' (stabilized)'',
                               action = action dominantEntry,
                               stability =
                                 \<lparr>dominantPhase = dominant,
                                  stabilityRatio = js_round (R (phaseStability * 100)),
                                  recentSwitches = countCycleSwitches h,
                                  avgRisk = round1 R avgRisk',
                                  avgOpportunity = round1 R avgOpportunity',
                                  riskVolatility = round1 R riskDiff,
                                  opportunityVolatility = round1 R opportunityDiff\<rparr>\<rparr>), h))
                    else (Inr (Some (raw_phase h oc)), h))"

text \<open>
  The conditions of the claim, in its words and without the functions above: the last
  \<open>n\<close> entries of a history, the mean of a list of scores (each addition and the division
  rounded), the share of a phase among the last 8 entries, and the closeness of the
  current scores to their means over the last 5.
\<close>

definition last_entries :: "nat \<Rightarrow> 'a list \<Rightarrow> 'a list" where
  "last_entries n h = drop (length h - n) h"

definition rounded_mean :: "rounding \<Rightarrow> rat list \<Rightarrow> rat" where
  "rounded_mean R xs = R (foldl (\<lambda>s x. R (s + x)) 0 xs / of_nat (length xs))"

definition phase_share :: "rounding \<Rightarrow> cycle_entry list \<Rightarrow> phase_name \<Rightarrow> rat" where
  "phase_share R h p =
     R (of_nat (count_list (map phase (last_entries 8 h)) p) / of_nat (length (last_entries 8 h)))"

definition scores_close :: "rounding \<Rightarrow> cycle_entry list \<Rightarrow> overall_cycle \<Rightarrow> bool" where
  "scores_close R h oc =
     (\<bar>R (overallRiskScore oc - rounded_mean R (map risk (last_entries 5 h)))\<bar> < 2 \<and>
      \<bar>R (overallOpportunityScore oc - rounded_mean R (map opportunity (last_entries 5 h)))\<bar> < 2)"

definition stabilises :: "rounding \<Rightarrow> cycle_entry list \<Rightarrow> overall_cycle \<Rightarrow> phase_name \<Rightarrow> bool" where
  "stabilises R h oc p =
     (length h \<ge> 3 \<and> phase_share R h p > R (3 / 5) \<and> scores_close R h oc)"

section \<open>Resilient fetcher\<close>

text \<open>
  The answer of the upstream to one request: a 2xx response with its payload, a response
  with another status, a timeout (\<open>ECONNABORTED\<close>) or a failure without a response. The
  \<open>nat option\<close> is the \<open>retry-after\<close> header, present with a number of seconds or absent.
\<close>

datatype 'd response =
    Ok "nat option" "'d list"
  | HttpError nat "nat option"
  | Timeout
  | NetworkError

text \<open>
  The network answers the \<open>n\<close>-th request the process issues after a latency in
  milliseconds. The fetcher state carries the clock that \<open>Date.now()\<close> reads and the
  number of requests issued so far; a request advances the clock by its latency,
  \<open>sleep\<close> by its argument.
\<close>

type_synonym 'd network = "nat \<Rightarrow> nat \<times> 'd response"

record rate_limit_info =
  isLimited :: bool
  resetTime :: "nat option"
  retryAfter :: "nat option"
  requestCount :: nat
  lastRequest :: "nat option"

record 'd cache_entry =
  cache_data :: "'d list"
  cache_timestamp :: nat

record 'd fetcher =
  apiCache :: "nat \<rightharpoonup> 'd cache_entry"
  lastSuccessfulFetch :: "nat option"
  rateLimitInfo :: rate_limit_info
  clock :: nat
  issued :: nat

text \<open>The state that the constructor leaves, at a given time.\<close>

definition new_fetcher :: "nat \<Rightarrow> 'd fetcher" where
  "new_fetcher t =
     \<lparr>apiCache = Map.empty, lastSuccessfulFetch = None,
      rateLimitInfo = \<lparr>isLimited = False, resetTime = None, retryAfter = None,
                       requestCount = 0, lastRequest = None\<rparr>,
      clock = t, issued = 0\<rparr>"

text \<open>Truthiness of a time or \<open>null\<close>.\<close>

definition time_set :: "nat option \<Rightarrow> bool" where
  "time_set t = (case t of None \<Rightarrow> False | Some v \<Rightarrow> v \<noteq> 0)"

definition shouldUseCachedData :: "'d fetcher \<Rightarrow> bool" where
  "shouldUseCachedData s =
     (let now = clock s;
          cacheAge = int now - int (case lastSuccessfulFetch s of None \<Rightarrow> 0 | Some t \<Rightarrow> t);
          maxCacheAge = 10 * 60 * 1000
      in isLimited (rateLimitInfo s) \<or> (time_set (lastSuccessfulFetch s) \<and> cacheAge < maxCacheAge))"

definition updateRateLimitInfo :: "nat option \<Rightarrow> 'd fetcher \<Rightarrow> 'd fetcher" where
  "updateRateLimitInfo retry_after_header s =
     (let r1 = (rateLimitInfo s)\<lparr>requestCount := requestCount (rateLimitInfo s) + 1,
                                 lastRequest := Some (clock s)\<rparr>;
          r2 = (case retry_after_header of
                  None \<Rightarrow> r1
                | Some seconds \<Rightarrow> r1\<lparr>retryAfter := Some (seconds * 1000),
                                     resetTime := Some (clock s + seconds * 1000)\<rparr>)
      in s\<lparr>rateLimitInfo := r2\<rparr>)"

text \<open>
  \<open>handleRateLimitError\<close>, given the error caught: a 429 takes the header or 5 minutes,
  anything else 1 minute.
\<close>

definition handleRateLimitError :: "'d response \<Rightarrow> 'd fetcher \<Rightarrow> 'd fetcher" where
  "handleRateLimitError error s =
     (let backoff = (case error of
                       HttpError status retry_after_header \<Rightarrow>
                         if status = 429 then
                           (case retry_after_header of
                              Some seconds \<Rightarrow> seconds * 1000
                            | None \<Rightarrow> 5 * 60 * 1000)
                         else 60 * 1000
                     | _ \<Rightarrow> 60 * 1000)
      in s\<lparr>rateLimitInfo := (rateLimitInfo s)\<lparr>isLimited := True, retryAfter := Some backoff,
                                                resetTime := Some (clock s + backoff)\<rparr>\<rparr>)"

definition checkRateLimitExpiry :: "'d fetcher \<Rightarrow> 'd fetcher" where
  "checkRateLimitExpiry s =
     (if isLimited (rateLimitInfo s) \<and> time_set (resetTime (rateLimitInfo s)) \<and>
         clock s > the (resetTime (rateLimitInfo s))
      then s\<lparr>rateLimitInfo := (rateLimitInfo s)\<lparr>isLimited := False, retryAfter := None,
                                                  resetTime := None\<rparr>\<rparr>
      else s)"

definition sleep :: "nat \<Rightarrow> 'd fetcher \<Rightarrow> 'd fetcher" where
  "sleep ms s = s\<lparr>clock := clock s + ms\<rparr>"

text \<open>
  The retry loop of \<open>getTopCryptos\<close>, from attempt number \<open>attempt\<close> on. It yields the
  payload when an attempt succeeds, and otherwise \<open>None\<close> with the last error caught,
  both when an error breaks out of the loop and when the attempts run out.
\<close>

function fetch_attempts ::
  "'d network \<Rightarrow> nat \<Rightarrow> nat \<Rightarrow> 'd response option \<Rightarrow> 'd fetcher
     \<Rightarrow> ('d list option \<times> 'd response option) \<times> 'd fetcher" where
  "fetch_attempts net cacheKey attempt lastError s =
     (if attempt \<le> 3 then
        (let (latency, answer) = net (issued s);
             s1 = s\<lparr>issued := issued s + 1, clock := clock s + latency\<rparr>
         in case answer of
              Ok retry_after_header payload \<Rightarrow>
                let s2 = updateRateLimitInfo retry_after_header s1;
                    s3 = s2\<lparr>apiCache := (apiCache s2)(cacheKey \<mapsto>
                                          \<lparr>cache_data = payload, cache_timestamp = clock s2\<rparr>),
                            lastSuccessfulFetch := Some (clock s2)\<rparr>
                in ((Some payload, lastError), s3)
            | HttpError status retry_after_header \<Rightarrow>
                if status = 429 then ((None, Some answer), handleRateLimitError answer s1)
                else if status \<ge> 500 then
                  fetch_attempts net cacheKey (attempt + 1) (Some answer)
                    (sleep (min (1000 * 2 ^ (attempt - 1)) 30000) s1)
                else ((None, Some answer), s1)
            | Timeout \<Rightarrow>
                fetch_attempts net cacheKey (attempt + 1) (Some answer)
                  (sleep (min (2000 * attempt) 10000) s1)
            | NetworkError \<Rightarrow>
                fetch_attempts net cacheKey (attempt + 1) (Some answer)
                  (sleep (min (1000 * 2 ^ (attempt - 1)) 30000) s1))
      else ((None, lastError), s))"
  by pat_completeness auto
termination
  by (relation "measure (\<lambda>(net, cacheKey, attempt, lastError, s). 4 - attempt)") auto

text \<open>The data cached for a key, or the empty array.\<close>

definition cached_or_empty :: "'d fetcher \<Rightarrow> nat \<Rightarrow> 'd list" where
  "cached_or_empty s cacheKey =
     (case apiCache s cacheKey of Some entry \<Rightarrow> cache_data entry | None \<Rightarrow> [])"

text \<open>
  \<open>getTopCryptos\<close>; the cache key \<open>top_cryptos_<limit>\<close> is the limit itself. After the
  loop \<open>handleRateLimitError(lastError)\<close> reads \<open>lastError.response\<close>, which throws on
  \<open>null\<close>.
\<close>

definition getTopCryptos ::
  "'d network \<Rightarrow> nat \<Rightarrow> 'd fetcher \<Rightarrow> (js_error + 'd list) \<times> 'd fetcher" where
  "getTopCryptos net limit s0 =
     (let cacheKey = limit;
          s = checkRateLimitExpiry s0
      in if shouldUseCachedData s \<and> apiCache s cacheKey \<noteq> None then
           (Inr (cache_data (the (apiCache s cacheKey))), s)
         else if isLimited (rateLimitInfo s) then (Inr (cached_or_empty s cacheKey), s)
         else case fetch_attempts net cacheKey 1 None s of
                ((Some payload, lastError), s') \<Rightarrow> (Inr payload, s')
              | ((None, None), s') \<Rightarrow> (Inl TypeError, s')
              | ((None, Some error), s') \<Rightarrow>
                  let s'' = handleRateLimitError error s'
                  in (Inr (cached_or_empty s'' cacheKey), s''))"

text \<open>Time passing between two calls.\<close>

definition later :: "nat \<Rightarrow> 'd fetcher \<Rightarrow> 'd fetcher" where
  "later ms s = s\<lparr>clock := clock s + ms\<rparr>"

text \<open>
  The cache entry for a key is fresh: it exists and the last successful fetch, for any
  key, is less than 10 minutes old.
\<close>

definition cache_fresh :: "'d fetcher \<Rightarrow> nat \<Rightarrow> bool" where
  "cache_fresh s limit =
     (\<exists>t. lastSuccessfulFetch s = Some t \<and> 0 < t \<and> int (clock s) - int t < 600000 \<and>
          apiCache s limit \<noteq> None)"

text \<open>
  A scenario: the first request succeeds, the second is answered 429 with a
  \<open>retry-after\<close> of 120 seconds, all later ones succeed. The process starts at time 1000
  and fetches 200 assets; 900 ms after that call it fetches 100 assets.
\<close>

definition net_scenario :: "nat network" where
  "net_scenario n =
     (if n = 0 then (100, Ok None [1, 2, 3])
      else if n = 1 then (100, HttpError 429 (Some 120))
      else (100, Ok None [7, 8, 9]))"

definition after_success :: "nat fetcher" where
  "after_success = snd (getTopCryptos net_scenario 200 (new_fetcher 1000))"

definition after_429 :: "nat fetcher" where
  "after_429 = snd (getTopCryptos net_scenario 100 (later 900 after_success))"

text \<open>An upstream that answers every request with 503 after 50 ms.\<close>

definition net_down :: "nat network" where
  "net_down n = (50, HttpError 503 None)"

text \<open>
  Observations for the proofs below: mid-cycle and early-cycle entries, a reading that by
  itself is classified as early cycle and one that is classified as a cycle top.
\<close>

definition mid_entry :: "nat \<Rightarrow> cycle_entry" where
  "mid_entry t =
     \<lparr>phase = MidCycle, description = ''Middle of cycle - balanced risk/reward'',
      action = ''Hold & Monitor'', timestamp = t, risk = 5, opportunity = 5,
      entry_bias = ''Bearish'', entry_strength = 0\<rparr>"

definition early_entry :: "nat \<Rightarrow> cycle_entry" where
  "early_entry t =
     \<lparr>phase = EarlyCycle, description = ''Early cycle stage - good entry opportunities'',
      action = ''Buy Dips'', timestamp = t, risk = 49 / 10, opportunity = 51 / 10,
      entry_bias = ''Bullish'', entry_strength = 1 / 5\<rparr>"

definition mid_history :: "cycle_entry list" where
  "mid_history = [mid_entry 1, mid_entry 2, mid_entry 3, mid_entry 4]"

definition mixed_history :: "cycle_entry list" where
  "mixed_history = [mid_entry 1, mid_entry 2, mid_entry 3, early_entry 4]"

definition full_history :: "cycle_entry list" where
  "full_history = map mid_entry [1..<13]"

definition early_reading :: overall_cycle where
  "early_reading =
     \<lparr>overallRiskScore = 49 / 10, overallOpportunityScore = 51 / 10,
      cycleBias = ''Bullish'', cycleStrength = 1 / 5\<rparr>"

definition top_reading :: overall_cycle where
  "top_reading =
     \<lparr>overallRiskScore = 9, overallOpportunityScore = 2,
      cycleBias = ''Bearish'', cycleStrength = 4 / 5\<rparr>"

text \<open>
  Two assets for the proofs below: a small, illiquid one (capitalisation 5,000,000,
  volume 50,000) with a monthly gain of 12 percent, and a large one with flat prices that
  scores 4.
\<close>

definition thin_coin :: coin where
  "thin_coin =
     \<lparr>coin_id = ''thin'', current_price = Some 1, high_24h = None, low_24h = None,
      total_volume = Some 50000, market_cap = Some 5000000, market_cap_rank = Some 120,
      price_change_percentage_1h_in_currency = Some 0,
      price_change_percentage_24h_in_currency = Some 0,
      price_change_percentage_7d_in_currency = Some 1,
      price_change_percentage_30d_in_currency = Some 12, sparkline_in_7d = None\<rparr>"

definition steady_coin :: coin where
  "steady_coin =
     \<lparr>coin_id = ''steady'', current_price = Some 1, high_24h = None, low_24h = None,
      total_volume = Some 10000000, market_cap = Some 2000000000, market_cap_rank = Some 80,
      price_change_percentage_1h_in_currency = Some 0,
      price_change_percentage_24h_in_currency = Some 0,
      price_change_percentage_7d_in_currency = Some 0,
      price_change_percentage_30d_in_currency = Some 0, sparkline_in_7d = None\<rparr>"

definition steady_history :: htf_history where
  "steady_history =
     Map.empty(''steady'' \<mapsto>
       \<lparr>scores = map (\<lambda>v. \<lparr>entry_score = v, entry_timestamp = 0, entry_signals = []\<rparr>)
                     [0, 5, 5, 5, 0, 0, 0, 0, 0, 0],
        firstSeen = 0, lastUpdated = 0\<rparr>)"

section \<open>Price history: proofs\<close>















section \<open>Indicator library: proofs\<close>

lemma rounding_ok_exact: "rounding_ok exact"
  by (simp add: rounding_ok_def exact_def)

lemma rounding_ok_mono: "rounding_ok R \<Longrightarrow> x \<le> y \<Longrightarrow> R x \<le> R y"
  by (simp add: rounding_ok_def)

lemma rounding_ok_int: "rounding_ok R \<Longrightarrow> \<bar>n\<bar> \<le> 2 ^ 53 \<Longrightarrow> R (of_int n) = of_int n"
  by (simp add: rounding_ok_def)

lemma rounding_ok_0: "rounding_ok R \<Longrightarrow> R 0 = 0"
  using rounding_ok_int [of R 0] by simp

lemma rounding_ok_1: "rounding_ok R \<Longrightarrow> R 1 = 1"
  using rounding_ok_int [of R 1] by simp

lemma rounding_ok_100: "rounding_ok R \<Longrightarrow> R 100 = 100"
  using rounding_ok_int [of R 100] by simp

lemma rounding_ok_nonneg: "rounding_ok R \<Longrightarrow> 0 \<le> x \<Longrightarrow> 0 \<le> R x"
  using rounding_ok_mono [of R 0 x] by (simp add: rounding_ok_0)

lemma foldl_sum_nonneg:
  "rounding_ok R \<Longrightarrow> 0 \<le> a \<Longrightarrow> \<forall>x\<in>set xs. 0 \<le> x \<Longrightarrow> 0 \<le> foldl (\<lambda>a b. R (a + b)) a xs"
proof (induction xs arbitrary: a)
  case Nil
  then show ?case by simp
next
  case (Cons x xs)
  from Cons.prems have "0 \<le> a + x" by simp
  then have "0 \<le> R (a + x)" by (rule rounding_ok_nonneg [OF Cons.prems(1)])
  with Cons.IH [of "R (a + x)"] Cons.prems show ?case by simp
qed

lemma js_sum_nonneg: "rounding_ok R \<Longrightarrow> \<forall>x\<in>set xs. 0 \<le> x \<Longrightarrow> 0 \<le> js_sum R xs"
  by (simp add: js_sum_def foldl_sum_nonneg)

text \<open>The largest double as a numeral, for evaluation.\<close>

lemma max_double_numeral [code]:
  "max_double = 179769313486231570814527423731704356798070567525844996598917476803157260780028538760589558632766878171540458953514382464234321326889464182768467546703537516986049910576551282076245490090389328944075868508455133942304583236903222948165808559332123348274797826204144723168738177180919299881250404026184124858368"
  by (simp add: max_double_def)

lemma max_double_large: "2 ^ 53 \<le> max_double"
  by (simp add: max_double_def)

lemma to_num_fin: "\<bar>x\<bar> \<le> 2 ^ 53 \<Longrightarrow> to_num x = Fin x"
  using max_double_large by (auto simp: to_num_def)

lemma to_num_nonneg: "0 \<le> x \<Longrightarrow> num_ge (to_num x) 0"
  using max_double_large by (auto simp: to_num_def)

lemma to_num_pos_cases: "0 \<le> x \<Longrightarrow> to_num x = Fin x \<or> to_num x = PosInf"
  using max_double_large by (auto simp: to_num_def)

lemma num_add_nonneg:
  assumes "rounding_ok R" and "num_ge a 0" and "num_ge b 0"
  shows "num_ge (num_add R a b) 0"
  using assms by (cases a; cases b) (simp_all add: to_num_nonneg rounding_ok_nonneg)

lemma foldl_num_add_nonneg:
  "rounding_ok R \<Longrightarrow> num_ge a 0 \<Longrightarrow> \<forall>x\<in>set xs. num_ge x 0 \<Longrightarrow>
   num_ge (foldl (num_add R) a xs) 0"
  by (induction xs arbitrary: a) (simp_all add: num_add_nonneg)

lemma num_sum_nonneg: "rounding_ok R \<Longrightarrow> \<forall>x\<in>set xs. num_ge x 0 \<Longrightarrow> num_ge (num_sum R xs) 0"
  by (simp add: num_sum_def foldl_num_add_nonneg)

lemma gain_nonneg: "num_ge (if num_gt d 0 then d else Fin 0) 0"
  by (cases d) simp_all

lemma loss_nonneg: "num_ge (if num_lt d 0 then num_abs d else Fin 0) 0"
  by (cases d) simp_all

lemma gains_nonneg: "\<forall>x\<in>set (take n (gains_of ds)). num_ge x 0"
proof
  fix x assume "x \<in> set (take n (gains_of ds))"
  then have "x \<in> set (gains_of ds)" by (rule in_set_takeD)
  then have "x \<in> (\<lambda>delta. if num_gt delta 0 then delta else Fin 0) ` set ds"
    by (simp only: gains_of_def set_map)
  then obtain d where "x = (if num_gt d 0 then d else Fin 0)" by (rule imageE)
  then show "num_ge x 0" by (simp only: gain_nonneg)
qed

lemma losses_nonneg: "\<forall>x\<in>set (take n (losses_of ds)). num_ge x 0"
proof
  fix x assume "x \<in> set (take n (losses_of ds))"
  then have "x \<in> set (losses_of ds)" by (rule in_set_takeD)
  then have "x \<in> (\<lambda>delta. if num_lt delta 0 then num_abs delta else Fin 0) ` set ds"
    by (simp only: losses_of_def set_map)
  then obtain d where "x = (if num_lt d 0 then num_abs d else Fin 0)" by (rule imageE)
  then show "num_ge x 0" by (simp only: loss_nonneg)
qed

lemma num_divide_nonneg:
  assumes "rounding_ok R" and "num_ge a 0" and "0 < p"
  shows "num_ge (num_divide R a (Fin p)) 0"
  using assms by (cases a) (simp_all add: to_num_nonneg rounding_ok_nonneg)

lemma avgGain_nonneg:
  assumes "rounding_ok R" and "0 < period"
  shows "num_ge (avgGain R prices period) 0"
  unfolding avgGain_def
  using assms by (intro num_divide_nonneg num_sum_nonneg gains_nonneg) simp_all

lemma avgLoss_nonneg:
  assumes "rounding_ok R" and "0 < period"
  shows "num_ge (avgLoss R prices period) 0"
  unfolding avgLoss_def
  using assms by (intro num_divide_nonneg num_sum_nonneg losses_nonneg) simp_all

lemma rs_nonneg:
  assumes "rounding_ok R" and "num_ge g 0" and "num_ge l 0" and "l \<noteq> Fin 0"
    and "\<not> (g = PosInf \<and> l = PosInf)"
  shows "num_ge (num_divide R g l) 0"
  using assms by (cases g; cases l) (simp_all add: to_num_nonneg rounding_ok_nonneg)

lemma rsi_of_infinite_ratio:
  assumes ok: "rounding_ok R"
  shows "num_sub R (Fin 100) (num_divide R (Fin 100) PosInf) = Fin 100"
  using ok by (simp add: num_sub_def rounding_ok_100 to_num_fin)

lemma rsi_of_finite_ratio:
  assumes ok: "rounding_ok R" and d: "1 \<le> d"
  shows "\<exists>x. num_sub R (Fin 100) (num_divide R (Fin 100) (Fin d)) = Fin x \<and> 0 \<le> x \<and> x \<le> 100"
proof -
  let ?q = "R (100 / d)"
  have "0 \<le> 100 / d" using d by simp
  then have q0: "0 \<le> ?q" by (rule rounding_ok_nonneg [OF ok])
  have "100 / d \<le> 100" using d by (simp add: divide_le_eq)
  then have "?q \<le> R 100" by (rule rounding_ok_mono [OF ok])
  then have q100: "?q \<le> 100" using ok by (simp add: rounding_ok_100)
  from q0 q100 have "\<bar>?q\<bar> \<le> 2 ^ 53" by simp
  then have q: "to_num ?q = Fin ?q" by (rule to_num_fin)
  let ?z = "R (100 + - ?q)"
  have "0 \<le> 100 + - ?q" using q100 by simp
  then have z0: "0 \<le> ?z" by (rule rounding_ok_nonneg [OF ok])
  have "100 + - ?q \<le> 100" using q0 by simp
  then have "?z \<le> R 100" by (rule rounding_ok_mono [OF ok])
  then have z100: "?z \<le> 100" using ok by (simp add: rounding_ok_100)
  from z0 z100 have "\<bar>?z\<bar> \<le> 2 ^ 53" by simp
  then have z: "to_num ?z = Fin ?z" by (rule to_num_fin)
  from d have "d \<noteq> 0" by simp
  with q z z0 z100 show ?thesis by (simp add: num_sub_def)
qed

lemma rsi_tail_bounds:
  assumes ok: "rounding_ok R" and rs: "num_ge rs 0"
  shows "\<exists>x. num_sub R (Fin 100) (num_divide R (Fin 100) (num_add R (Fin 1) rs)) = Fin x \<and>
             0 \<le> x \<and> x \<le> 100"
proof -
  have "num_add R (Fin 1) rs = PosInf \<or> (\<exists>d. num_add R (Fin 1) rs = Fin d \<and> 1 \<le> d)"
  proof (cases rs)
    case (Fin r)
    with rs have "1 \<le> 1 + r" by simp
    then have "R 1 \<le> R (1 + r)" by (rule rounding_ok_mono [OF ok])
    then have d: "1 \<le> R (1 + r)" using ok by (simp add: rounding_ok_1)
    then have "0 \<le> R (1 + r)" by simp
    from to_num_pos_cases [OF this] d Fin show ?thesis by auto
  next
    case NaN
    with rs show ?thesis by simp
  next
    case PosInf
    then show ?thesis by simp
  next
    case NegInf
    with rs show ?thesis by simp
  qed
  then show ?thesis
  proof
    assume "num_add R (Fin 1) rs = PosInf"
    with rsi_of_infinite_ratio [OF ok] show ?thesis by simp
  next
    assume "\<exists>d. num_add R (Fin 1) rs = Fin d \<and> 1 \<le> d"
    then obtain d where "num_add R (Fin 1) rs = Fin d" and "1 \<le> d" by blast
    with rsi_of_finite_ratio [OF ok, of d] show ?thesis by simp
  qed
qed

text \<open>A window in which no price falls has average loss 0.\<close>

lemma take_deltas:
  assumes "period + 1 \<le> length prices"
  shows "take period (deltas_of R prices) =
         map (\<lambda>i. num_sub R (Fin (prices ! i)) (Fin (prices ! (i - 1)))) [1..<period + 1]"
  using assms by (simp add: deltas_of_def take_map take_upt)

lemma foldl_zeros:
  "rounding_ok R \<Longrightarrow> \<forall>x\<in>set xs. x = Fin 0 \<Longrightarrow> foldl (num_add R) (Fin 0) xs = Fin 0"
  by (induction xs) (simp_all add: rounding_ok_0 to_num_fin)

lemma rising_no_loss:
  assumes ok: "rounding_ok R" and p: "0 < period" and len: "period + 1 \<le> length prices"
    and up: "\<forall>i<period. prices ! i \<le> prices ! (i + 1)"
  shows "avgLoss R prices period = Fin 0"
proof -
  have "\<forall>x\<in>set (take period (losses_of (deltas_of R prices))). x = Fin 0"
  proof
    fix x assume "x \<in> set (take period (losses_of (deltas_of R prices)))"
    then have "x \<in> set (losses_of (take period (deltas_of R prices)))"
      by (simp add: losses_of_def take_map)
    then obtain i where i: "1 \<le> i" "i < period + 1"
      and x: "x = (let delta = num_sub R (Fin (prices ! i)) (Fin (prices ! (i - 1)))
                   in if num_lt delta 0 then num_abs delta else Fin 0)"
      by (auto simp: losses_of_def take_deltas [OF len] Let_def)
    from i have "i - 1 < period" by arith
    with up have "prices ! (i - 1) \<le> prices ! (i - 1 + 1)" by blast
    with i have "0 \<le> prices ! i + - prices ! (i - 1)" by simp
    then have "0 \<le> R (prices ! i + - prices ! (i - 1))" by (rule rounding_ok_nonneg [OF ok])
    then have "num_ge (num_sub R (Fin (prices ! i)) (Fin (prices ! (i - 1)))) 0"
      by (simp add: num_sub_def to_num_nonneg)
    then have "\<not> num_lt (num_sub R (Fin (prices ! i)) (Fin (prices ! (i - 1)))) 0"
      by (cases "num_sub R (Fin (prices ! i)) (Fin (prices ! (i - 1)))") simp_all
    with x show "x = Fin 0" by (simp add: Let_def)
  qed
  then have "num_sum R (take period (losses_of (deltas_of R prices))) = Fin 0"
    using ok by (simp add: num_sum_def foldl_zeros)
  with ok p show ?thesis by (simp add: avgLoss_def rounding_ok_0 to_num_fin)
qed

text \<open>Prices of bounded magnitude: the sums of the window stay finite.\<close>

lemma delta_bounded:
  assumes ok: "rounding_ok R" and a: "\<bar>a\<bar> \<le> of_int B" and b: "\<bar>b\<bar> \<le> of_int B"
    and B: "2 * B \<le> 2 ^ 53"
  shows "\<exists>d. num_sub R (Fin a) (Fin b) = Fin d \<and> \<bar>d\<bar> \<le> of_int (2 * B)"
proof -
  from a have "(0::rat) \<le> of_int B" by linarith
  then have B0: "0 \<le> B" by simp
  with B have r: "\<bar>2 * B\<bar> \<le> 2 ^ 53" "\<bar>- (2 * B)\<bar> \<le> 2 ^ 53" by simp_all
  have "a + - b \<le> of_int (2 * B)" using a b by simp
  then have "R (a + - b) \<le> R (of_int (2 * B))" by (rule rounding_ok_mono [OF ok])
  then have hi: "R (a + - b) \<le> of_int (2 * B)" using rounding_ok_int [OF ok r(1)] by simp
  have "of_int (- (2 * B)) \<le> a + - b" using a b by simp
  then have "R (of_int (- (2 * B))) \<le> R (a + - b)" by (rule rounding_ok_mono [OF ok])
  then have lo: "of_int (- (2 * B)) \<le> R (a + - b)" using rounding_ok_int [OF ok r(2)] by simp
  from hi lo have bd: "\<bar>R (a + - b)\<bar> \<le> of_int (2 * B)" by simp
  have "(of_int (2 * B) :: rat) \<le> of_int (2 ^ 53)" using B by (simp only: of_int_le_iff)
  with bd have "\<bar>R (a + - b)\<bar> \<le> 2 ^ 53" by simp
  then have "to_num (R (a + - b)) = Fin (R (a + - b))" by (rule to_num_fin)
  with bd show ?thesis by (simp add: num_sub_def)
qed

lemma deltas_bounded:
  assumes ok: "rounding_ok R" and ps: "\<forall>p\<in>set prices. \<bar>p\<bar> \<le> of_int B" and B: "2 * B \<le> 2 ^ 53"
  shows "\<forall>x\<in>set (deltas_of R prices). \<exists>d. x = Fin d \<and> \<bar>d\<bar> \<le> of_int (2 * B)"
proof
  fix x assume "x \<in> set (deltas_of R prices)"
  then obtain i where i: "1 \<le> i" "i < length prices"
    and x: "x = num_sub R (Fin (prices ! i)) (Fin (prices ! (i - 1)))"
    by (auto simp: deltas_of_def)
  from i ps have "\<bar>prices ! i\<bar> \<le> of_int B" "\<bar>prices ! (i - 1)\<bar> \<le> of_int B" by simp_all
  from delta_bounded [OF ok this B] x show "\<exists>d. x = Fin d \<and> \<bar>d\<bar> \<le> of_int (2 * B)" by simp
qed

lemma foldl_bounded:
  assumes ok: "rounding_ok R"
  shows "0 \<le> a \<Longrightarrow> a \<le> of_int (int k * C) \<Longrightarrow>
         \<forall>x\<in>set xs. \<exists>d. x = Fin d \<and> 0 \<le> d \<and> d \<le> of_int C \<Longrightarrow>
         (int k + int (length xs)) * C \<le> 2 ^ 53 \<Longrightarrow>
         \<exists>s. foldl (num_add R) (Fin a) xs = Fin s \<and> 0 \<le> s \<and> s \<le> 2 ^ 53"
proof (induction xs arbitrary: a k)
  case Nil
  from Nil(2,4) have "a \<le> of_int (2 ^ 53)"
    by (metis (no_types) add.right_neutral list.size(3) of_int_le_iff of_nat_0 order_trans)
  with Nil show ?case by simp
next
  case (Cons x xs)
  from Cons.prems(3) obtain d where x: "x = Fin d" and d: "0 \<le> d" "d \<le> of_int C" by auto
  from d have C0: "0 \<le> C" by (metis of_int_0_le_iff order_trans)
  have le: "a + d \<le> of_int (int (Suc k) * C)"
    using Cons.prems(2) d by (simp add: algebra_simps)
  have "int (Suc k) * C \<le> (int k + int (length (x # xs))) * C"
    using C0 by (intro mult_right_mono) simp_all
  with Cons.prems(4) have small: "\<bar>int (Suc k) * C\<bar> \<le> 2 ^ 53" using C0 by simp
  from le have "R (a + d) \<le> R (of_int (int (Suc k) * C))" by (rule rounding_ok_mono [OF ok])
  with rounding_ok_int [OF ok small] have hi: "R (a + d) \<le> of_int (int (Suc k) * C)" by simp
  have "0 \<le> a + d" using Cons.prems(1) d by simp
  then have lo: "0 \<le> R (a + d)" by (rule rounding_ok_nonneg [OF ok])
  have "(of_int (int (Suc k) * C) :: rat) \<le> of_int (2 ^ 53)"
    using small by (simp only: of_int_le_iff)
  with hi lo have "\<bar>R (a + d)\<bar> \<le> 2 ^ 53" by simp
  then have t: "to_num (R (a + d)) = Fin (R (a + d))" by (rule to_num_fin)
  have "(int (Suc k) + int (length xs)) * C \<le> 2 ^ 53" using Cons.prems(4) by (simp add: algebra_simps)
  from Cons.IH [OF lo hi _ this] Cons.prems(3) x t show ?case by simp
qed

lemma window_sum_finite:
  assumes ok: "rounding_ok R"
    and xs: "\<forall>x\<in>set xs. \<exists>d. x = Fin d \<and> 0 \<le> d \<and> d \<le> of_int C"
    and small: "int period * C \<le> 2 ^ 53" and C: "0 \<le> C"
  shows "\<exists>s. num_sum R (take period xs) = Fin s \<and> 0 \<le> s \<and> s \<le> 2 ^ 53"
proof -
  have "\<forall>x\<in>set (take period xs). \<exists>d. x = Fin d \<and> 0 \<le> d \<and> d \<le> of_int C"
    using xs by (auto dest!: in_set_takeD)
  moreover have "int (length (take period xs)) * C \<le> int period * C"
    using C by (intro mult_right_mono) simp_all
  with small have "(int 0 + int (length (take period xs))) * C \<le> 2 ^ 53" by simp
  ultimately show ?thesis
    unfolding num_sum_def
    using foldl_bounded [OF ok, of 0 0 C "take period xs"] by simp
qed

lemma average_finite:
  assumes ok: "rounding_ok R" and s: "0 \<le> s" "s \<le> 2 ^ 53" and p: "0 < period"
  shows "\<exists>v. num_divide R (Fin s) (Fin (of_nat period)) = Fin v"
proof -
  have p1: "(1::rat) \<le> of_nat period" using p by simp
  have "0 \<le> s / of_nat period" using s by simp
  then have lo: "0 \<le> R (s / of_nat period)" by (rule rounding_ok_nonneg [OF ok])
  have "s / of_nat period \<le> s" using s(1) p1 by (simp add: divide_le_eq mult_le_cancel_left1)
  with s(2) have "s / of_nat period \<le> of_int (2 ^ 53)" by simp
  then have "R (s / of_nat period) \<le> R (of_int (2 ^ 53))" by (rule rounding_ok_mono [OF ok])
  with rounding_ok_int [OF ok, of "2 ^ 53"] have "R (s / of_nat period) \<le> 2 ^ 53" by simp
  with lo have "\<bar>R (s / of_nat period)\<bar> \<le> 2 ^ 53" by simp
  then have "to_num (R (s / of_nat period)) = Fin (R (s / of_nat period))" by (rule to_num_fin)
  with p show ?thesis by simp
qed

lemma bounded_prices_finite:
  assumes ok: "rounding_ok R" and p: "0 < period"
    and ps: "\<forall>p\<in>set prices. \<bar>p\<bar> \<le> of_int B" and small: "int period * (2 * B) \<le> 2 ^ 53"
    and ne: "prices \<noteq> []"
  shows "(\<exists>g. avgGain R prices period = Fin g) \<and> (\<exists>l. avgLoss R prices period = Fin l)"
proof -
  from ne obtain q where "q \<in> set prices" by (cases prices) auto
  with ps have "(0::rat) \<le> of_int B" by fastforce
  then have B0: "0 \<le> B" by simp
  have "1 * (2 * B) \<le> int period * (2 * B)" using p B0 by (intro mult_right_mono) simp_all
  then have "2 * B \<le> int period * (2 * B)" by (simp only: mult_1)
  from this small have B: "2 * B \<le> 2 ^ 53" by (rule order_trans)
  note ds = deltas_bounded [OF ok ps B]
  have gs: "\<forall>x\<in>set (gains_of (deltas_of R prices)). \<exists>d. x = Fin d \<and> 0 \<le> d \<and> d \<le> of_int (2 * B)"
    using ds B0 by (fastforce simp: gains_of_def)
  have ls: "\<forall>x\<in>set (losses_of (deltas_of R prices)). \<exists>d. x = Fin d \<and> 0 \<le> d \<and> d \<le> of_int (2 * B)"
    using ds B0 by (fastforce simp: losses_of_def)
  from B0 have C: "0 \<le> 2 * B" by simp
  from window_sum_finite [OF ok gs small C] average_finite [OF ok _ _ p]
  have "\<exists>g. avgGain R prices period = Fin g" by (auto simp: avgGain_def)
  moreover from window_sum_finite [OF ok ls small C] average_finite [OF ok _ _ p]
  have "\<exists>l. avgLoss R prices period = Fin l" by (auto simp: avgLoss_def)
  ultimately show ?thesis by simp
qed

text \<open>
  C7 (as amended). With a period of at least 1 and at least period + 1 prices the
  oscillator is a number between 0 and 100, except that it is NaN when the gains and
  the losses of the window both sum to infinity. It is 100 when the average loss is 0,
  in particular when no price of the window is lower than the one before it. Prices
  of magnitude at most \<open>B\<close>, where \<open>2 * period * B\<close> is at most \<open>2^53\<close>, give no NaN.
\<close>

theorem rsi_within_bounds:
  assumes "rounding_ok R" and "0 < period" and "period + 1 \<le> length prices"
  shows "\<exists>v. calculateRSI R prices period = Some v \<and>
             (v = NaN \<longleftrightarrow> avgGain R prices period = PosInf \<and> avgLoss R prices period = PosInf) \<and>
             (v \<noteq> NaN \<longrightarrow> (\<exists>x. v = Fin x \<and> 0 \<le> x \<and> x \<le> 100)) \<and>
             (avgLoss R prices period = Fin 0 \<longrightarrow> v = Fin 100) \<and>
             ((\<forall>i<period. prices ! i \<le> prices ! (i + 1)) \<longrightarrow> v = Fin 100) \<and>
             ((\<forall>p\<in>set prices. \<bar>p\<bar> \<le> of_int B) \<and> int period * (2 * B) \<le> 2 ^ 53 \<longrightarrow> v \<noteq> NaN)"
proof -
  let ?g = "avgGain R prices period" and ?l = "avgLoss R prices period"
  note ok = assms(1)
  have g: "num_ge ?g 0" by (rule avgGain_nonneg [OF assms(1,2)])
  have l: "num_ge ?l 0" by (rule avgLoss_nonneg [OF assms(1,2)])
  from assms(3) have ne: "prices \<noteq> []" by auto
  have fin: "(\<forall>p\<in>set prices. \<bar>p\<bar> \<le> of_int B) \<and> int period * (2 * B) \<le> 2 ^ 53 \<longrightarrow>
             \<not> (?g = PosInf \<and> ?l = PosInf)"
    using bounded_prices_finite [OF ok assms(2) _ _ ne, of B] by auto
  have up: "(\<forall>i<period. prices ! i \<le> prices ! (i + 1)) \<longrightarrow> ?l = Fin 0"
    using rising_no_loss [OF ok assms(2,3)] by blast
  show ?thesis
  proof (cases "?l = Fin 0")
    case True
    with assms(3) have "calculateRSI R prices period = Some (Fin 100)"
      by (simp add: calculateRSI_def Let_def)
    with True show ?thesis by simp
  next
    case False
    let ?v = "num_sub R (Fin 100) (num_divide R (Fin 100) (num_add R (Fin 1) (num_divide R ?g ?l)))"
    from False assms(3) have v: "calculateRSI R prices period = Some ?v"
      by (simp add: calculateRSI_def Let_def)
    show ?thesis
    proof (cases "?g = PosInf \<and> ?l = PosInf")
      case True
      then have "?v = NaN" by (simp add: num_sub_def)
      with v True False fin up show ?thesis by auto
    next
      case inf: False
      from rs_nonneg [OF ok g l False inf] have "num_ge (num_divide R ?g ?l) 0" .
      from rsi_tail_bounds [OF ok this] obtain x where "?v = Fin x" "0 \<le> x" "x \<le> 100" by blast
      with v inf False up show ?thesis by auto
    qed
  qed
qed

text \<open>A number with a 53-bit significand and a non-negative exponent is a double.\<close>

lemma round_half_even_int: "round_half_even (of_int m) = m"
  by (simp add: round_half_even_def)

lemma bitlen_53:
  assumes "2 ^ 52 \<le> m" and "m < 2 ^ 53"
  shows "bitlen m = 53"
proof (rule antisym)
  show "bitlen m \<le> 53" using assms(2) bitlen_le_iff_power [of m 53] by simp
  show "53 \<le> bitlen m" using assms(1) bitlen_ge_iff_power [of 53 m] by simp
qed

lemma fl64_fixed:
  assumes "2 ^ 52 \<le> \<bar>m\<bar>" and "\<bar>m\<bar> < 2 ^ 53"
  shows "fl64 (of_int m * 2 ^ e) = of_int m * 2 ^ e"
proof -
  let ?x = "of_int m * 2 ^ e :: rat"
  from assms(1) have m0: "0 < \<bar>m\<bar>" by simp
  then have x0: "?x \<noteq> 0" by simp
  have ax: "\<bar>?x\<bar> = of_int (\<bar>m\<bar> * 2 ^ e)" by (simp add: abs_mult)
  have "1 * 1 \<le> \<bar>m\<bar> * 2 ^ e" using m0 by (intro mult_mono) simp_all
  then have "(1::rat) \<le> of_int (\<bar>m\<bar> * 2 ^ e)" by (simp only: mult_1 of_int_1_le_iff)
  with ax have one: "1 \<le> \<bar>?x\<bar>" by simp
  have fl: "\<lfloor>\<bar>?x\<bar>\<rfloor> = \<bar>m\<bar> * 2 ^ e" by (simp only: ax floor_of_int)
  have "bitlen (\<bar>m\<bar> * 2 ^ e) = bitlen \<bar>m\<bar> + int e" using m0 by (rule bitlen_pow2)
  with bitlen_53 [OF assms] have "bitlen \<lfloor>\<bar>?x\<bar>\<rfloor> = 53 + int e" by (simp only: fl)
  with one have il: "ilog2 \<bar>?x\<bar> = 52 + int e" by (simp add: ilog2_def)
  have ex: "max (ilog2 \<bar>?x\<bar> - 52) (- 1074) = int e" by (simp add: il)
  have "fl64 ?x = of_int (round_half_even (?x / 2 powi int e)) * 2 powi int e"
    using x0 by (simp only: fl64_def Let_def ex if_False)
  also have "?x / 2 powi int e = of_int m" by (simp add: power_int_def)
  also have "of_int (round_half_even (of_int m)) * 2 powi int e = ?x"
    by (simp add: round_half_even_int power_int_def)
  finally show ?thesis .
qed

lemma fl64_0: "fl64 0 = 0"
  by (simp add: fl64_def)

lemma big_double: "fl64 big = big" "fl64 (- big) = - big" "fl64 (big + big) = big + big"
proof -
  have m: "2 ^ 52 \<le> \<bar>3 * 2 ^ 51 :: int\<bar>" "\<bar>3 * 2 ^ 51 :: int\<bar> < 2 ^ 53"
          "2 ^ 52 \<le> \<bar>- (3 * 2 ^ 51) :: int\<bar>" "\<bar>- (3 * 2 ^ 51) :: int\<bar> < 2 ^ 53"
    by simp_all
  have "big = of_int (3 * 2 ^ 51) * 2 ^ 971" by (simp add: big_def)
  with fl64_fixed [OF m(1,2), of 971] show "fl64 big = big" by (simp only:)
  have "- big = of_int (- (3 * 2 ^ 51)) * 2 ^ 971" by (simp add: big_def)
  with fl64_fixed [OF m(3,4), of 971] show "fl64 (- big) = - big" by (simp only:)
  have "big + big = of_int (3 * 2 ^ 51) * 2 ^ 972" by (simp add: big_def)
  with fl64_fixed [OF m(1,2), of 972] show "fl64 (big + big) = big + big" by (simp only:)
qed

lemma big_range: "to_num big = Fin big" "to_num (- big) = Fin (- big)" "to_num (big + big) = PosInf"
  "0 < big"
  by (simp_all add: to_num_def max_double_def big_def)

text \<open>The deltas of a literal price list.\<close>

lemma deltas_of_Cons:
  "deltas_of R (a # b # rest) = num_sub R (Fin b) (Fin a) # deltas_of R (b # rest)"
proof -
  have "[1..<length (a # b # rest)] = 1 # map Suc [1..<length (b # rest)]"
    by (simp add: upt_conv_Cons map_Suc_upt del: upt_Suc)
  then show ?thesis
    by (simp add: deltas_of_def del: upt_Suc)
qed

lemma deltas_of_single: "deltas_of R [a] = []"
  by (simp add: deltas_of_def)

lemma big_twice: "fl64 (2 * big) = 2 * big" "to_num (2 * big) = PosInf" "\<bar>big\<bar> = big"
  "\<not> big < 0" "to_num 0 = Fin 0"
  using big_double(3) big_range(3,4) by (simp_all add: to_num_fin)

theorem rsi_within_bounds_counterexample:
  "calculateRSI fl64 [1] 0 = Some NaN \<and>
   calculateRSI fl64 [0, big, 0, big, 0, big, 0, big, 0, big, 0, big, 0, big, 0] 14 = Some NaN"
proof -
  have "calculateRSI fl64 [1] 0 = Some NaN"
    by (simp add: calculateRSI_def avgGain_def avgLoss_def num_sum_def num_sub_def)
  moreover
  have "calculateRSI fl64 [0, big, 0, big, 0, big, 0, big, 0, big, 0, big, 0, big, 0] 14 = Some NaN"
    by (simp add: calculateRSI_def avgGain_def avgLoss_def deltas_of_Cons deltas_of_single
        gains_of_def losses_of_def num_sum_def num_sub_def fl64_0 big_double big_range big_twice
        Let_def)
  ultimately show ?thesis by simp
qed

lemma big_numeral [code]:
  "big = 134826985114673693079697889309176855021348273420672992955072560868299506854125722349531357991805652015840085409903545018244092326610812466869635572979605593283325920068649113957226664700934570589589812214063754326628613011756847161105434832905620427872512883013439723679960434453859787228626517247218168102912"
  by (simp add: big_def)

theorem rsi_within_bounds_witness:
  "(\<exists>x. calculateRSI exact [1, 2, 1, 2, 1, 2, 1, 2, 1, 2, 1, 2, 1, 2, 1] 14 = Some (Fin x) \<and>
        0 \<le> x \<and> x \<le> 100) \<and>
   calculateRSI exact [1, 2, 1, 2, 1, 2, 1, 2, 1, 2, 1, 2, 1, 2, 1] 14 = Some (Fin 50) \<and>
   avgLoss exact [1, 2, 3, 4, 5, 6, 7, 8, 9, 10, 11, 12, 13, 14, 15] 14 = Fin 0 \<and>
   calculateRSI exact [1, 2, 3, 4, 5, 6, 7, 8, 9, 10, 11, 12, 13, 14, 15] 14 = Some (Fin 100) \<and>
   avgGain exact [0, big, 0, big, 0, big, 0, big, 0, big, 0, big, 0, big, 0] 14 = PosInf \<and>
   avgLoss exact [0, big, 0, big, 0, big, 0, big, 0, big, 0, big, 0, big, 0] 14 = PosInf \<and>
   calculateRSI exact [0, big, 0, big, 0, big, 0, big, 0, big, 0, big, 0, big, 0] 14 = Some NaN"
proof -
  let ?alt = "[1, 2, 1, 2, 1, 2, 1, 2, 1, 2, 1, 2, 1, 2, 1] :: rat list"
  let ?rising = "[1, 2, 3, 4, 5, 6, 7, 8, 9, 10, 11, 12, 13, 14, 15] :: rat list"
  let ?bigs = "[0, big, 0, big, 0, big, 0, big, 0, big, 0, big, 0, big, 0]"
  have ok: "rounding_ok exact" by (rule rounding_ok_exact)
  have alt: "\<forall>p\<in>set ?alt. \<bar>p\<bar> \<le> of_int 2" by simp
  have r50: "calculateRSI exact ?alt 14 = Some (Fin 50)" by code_simp
  have up: "\<forall>i<14. ?rising ! i \<le> ?rising ! (i + 1)"
    by (auto simp: less_Suc_eq eval_nat_numeral)
  have l0: "avgLoss exact ?rising 14 = Fin 0" by code_simp
  have inf: "avgGain exact ?bigs 14 = PosInf" "avgLoss exact ?bigs 14 = PosInf" by code_simp+
  from rsi_within_bounds [OF ok, of 14 ?alt 2] alt
  have "\<exists>x. calculateRSI exact ?alt 14 = Some (Fin x) \<and> 0 \<le> x \<and> x \<le> 100" by auto
  moreover from rsi_within_bounds [OF ok, of 14 ?rising 0] up
  have "calculateRSI exact ?rising 14 = Some (Fin 100)" by auto
  moreover from rsi_within_bounds [OF ok, of 14 ?bigs 0] inf
  have "calculateRSI exact ?bigs 14 = Some NaN" by auto
  ultimately show ?thesis using r50 l0 inf by simp
qed

text \<open>
  C6. Insufficient data: each indicator returns \<open>null\<close> on a price sequence shorter than
  its window: period + 1 for the oscillator, the period for the simple and exponential
  averages, the slow period for the convergence/divergence triple, 20 for the bands.
\<close>

theorem insufficient_data_null:
  "(length prices < period + 1 \<longrightarrow> calculateRSI R prices period = None) \<and>
   (length prices < period \<longrightarrow> calculateSMA R prices period = None) \<and>
   (length prices < period \<longrightarrow> calculateEMA R prices period = None) \<and>
   (length prices < slowPeriod \<longrightarrow> calculateMACD R prices fastPeriod slowPeriod = None) \<and>
   (length prices < 20 \<longrightarrow> calculateBollingerBands R msqrt prices 20 2 = None)"
  by (simp add: calculateRSI_def calculateSMA_def calculateEMA_def calculateMACD_def
      calculateBollingerBands_def)

theorem insufficient_data_null_witness:
  "calculateRSI exact [1, 2, 3] 14 = None \<and> calculateSMA exact [1, 2, 3] 14 = None \<and>
   calculateEMA exact [1, 2, 3] 14 = None \<and> calculateMACD exact [1, 2, 3] 12 26 = None \<and>
   calculateBollingerBands exact (\<lambda>x. x) [1, 2, 3] 20 2 = None"
  using insufficient_data_null [of "[1, 2, 3]" 14 exact 26 12 "\<lambda>x. x"] by simp

text \<open>The oscillator reads the first period + 1 prices and nothing after them.\<close>

lemma deltas_take:
  assumes "period + 1 \<le> length prices"
  shows "take period (deltas_of R prices) = deltas_of R (take (period + 1) prices)"
proof -
  have "take period (deltas_of R prices) =
        map (\<lambda>i. num_sub R (Fin (prices ! i)) (Fin (prices ! (i - 1)))) [1..<period + 1]"
    by (rule take_deltas [OF assms])
  also have "\<dots> = map (\<lambda>i. num_sub R (Fin (take (period + 1) prices ! i))
                          (Fin (take (period + 1) prices ! (i - 1)))) [1..<period + 1]"
    by (rule map_cong) auto
  also have "\<dots> = deltas_of R (take (period + 1) prices)"
    using assms by (simp add: deltas_of_def min_def)
  finally show ?thesis .
qed

lemma rsi_prefix_only:
  assumes "period + 1 \<le> length prices"
  shows "calculateRSI R prices period = calculateRSI R (take (period + 1) prices) period"
proof -
  note d = deltas_take [OF assms, of R]
  have len: "length (deltas_of R (take (period + 1) prices)) = period"
    using assms by (simp add: deltas_of_def)
  have "take period (gains_of (deltas_of R prices)) =
        take period (gains_of (deltas_of R (take (period + 1) prices)))"
    using len by (simp add: gains_of_def take_map d)
  moreover have "take period (losses_of (deltas_of R prices)) =
        take period (losses_of (deltas_of R (take (period + 1) prices)))"
    using len by (simp add: losses_of_def take_map d)
  ultimately show ?thesis
    using assms by (simp add: calculateRSI_def avgGain_def avgLoss_def)
qed

text \<open>
  C8. Oscillator window: on 16 prices that rise once at the start and fall once at the
  end, \<open>calculateRSI\<close> averages the oldest 14 deltas and returns 100, where the most recent
  14 deltas give 0.
\<close>

theorem rsi_window_is_oldest:
  "calculateRSI exact [1, 2, 2, 2, 2, 2, 2, 2, 2, 2, 2, 2, 2, 2, 2, 1] 14 = Some (Fin 100) \<and>
   rsi_most_recent exact [1, 2, 2, 2, 2, 2, 2, 2, 2, 2, 2, 2, 2, 2, 2, 1] 14 = Some (Fin 0)"
  by code_simp

section \<open>Long-horizon classifier: proofs\<close>

lemma fst_award [simp]: "fst (award p s acc) = fst acc + p"
  by (simp add: award_def)

lemma filter_applies:
  assumes "market_cap c = Some 5000000" and "total_volume c = Some 50000"
  shows "htf_liquidity_filter c acc = (max 0 (fst acc - 6), snd acc)"
  using assms by (simp add: htf_liquidity_filter_def js_or_def)

text \<open>
  C9 (as amended). For an asset with capitalisation 5,000,000 and volume 50,000 the
  quality filter replaces the score \<open>s\<close> reached before it by \<open>max 0 (s - 6)\<close>; the
  score returned is that value plus 2 when the alignment bonus applies and plus 1 when the
  stability bonus applies.
\<close>

theorem htf_liquidity_penalty:
  assumes "market_cap c = Some 5000000" and "total_volume c = Some 50000"
  shows "fst (htf_liquidity_filter c (htf_before_filter R ph c))
           = max 0 (fst (htf_before_filter R ph c) - 6) \<and>
         fst (analyzeHTFInvestment R ph c)
           = max 0 (fst (htf_before_filter R ph c) - 6)
             + (if htf_alignment c (max 0 (fst (htf_before_filter R ph c) - 6)) then 2 else 0)
             + (if htf_stable c then 1 else 0)"
  by (simp add: analyzeHTFInvestment_def htf_bonuses_def filter_applies [OF assms] Let_def)

text \<open>
  The claim as stated fails on \<open>thin_coin\<close>: the score before the filter is 5, the filter
  leaves 0, the stability bonus makes the returned score 1.
\<close>

theorem htf_liquidity_penalty_counterexample:
  "market_cap thin_coin = Some 5000000 \<and> total_volume thin_coin = Some 50000 \<and>
   fst (htf_before_filter exact Map.empty thin_coin) = 5 \<and>
   fst (analyzeHTFInvestment exact Map.empty thin_coin) = 1 \<and>
   fst (analyzeHTFInvestment exact Map.empty thin_coin)
     \<noteq> max 0 (fst (htf_before_filter exact Map.empty thin_coin) - 6)"
  by code_simp

theorem htf_liquidity_penalty_witness:
  "fst (htf_liquidity_filter thin_coin (htf_before_filter exact Map.empty thin_coin)) = 0 \<and>
   fst (analyzeHTFInvestment exact Map.empty thin_coin) = 1"
proof -
  have s: "fst (htf_before_filter exact Map.empty thin_coin) = 5" by code_simp
  have a: "\<not> htf_alignment thin_coin 0" by (simp add: htf_alignment_def)
  have b: "htf_stable thin_coin" by (simp add: htf_stable_def thin_coin_def js_or_def)
  have mc: "market_cap thin_coin = Some 5000000" by (simp add: thin_coin_def)
  have v: "total_volume thin_coin = Some 50000" by (simp add: thin_coin_def)
  from htf_liquidity_penalty [OF mc v, of exact Map.empty] s a b show ?thesis by simp
qed

lemma js_round_mono: "x \<le> y \<Longrightarrow> js_round x \<le> js_round y"
  by (simp add: js_round_def floor_mono)

lemma js_round_of_int: "js_round (of_int n) = n"
proof -
  have "\<lfloor>(of_int n :: rat) + 1 / 2\<rfloor> = n"
    by (rule floor_unique) simp_all
  then show ?thesis by (simp add: js_round_def)
qed

lemma round1_at_least_5:
  assumes ok: "rounding_ok R" and s: "5 \<le> s"
  shows "5 \<le> round1 R s"
proof -
  from s have "50 \<le> s * 10" by simp
  then have "R 50 \<le> R (s * 10)" by (rule rounding_ok_mono [OF ok])
  moreover have "R 50 = 50" using rounding_ok_int [OF ok, of 50] by simp
  ultimately have "js_round (of_int 50) \<le> js_round (R (s * 10))" by (simp add: js_round_mono)
  then have "50 \<le> js_round (R (s * 10))" by (simp only: js_round_of_int)
  then have "(5::rat) \<le> of_int (js_round (R (s * 10))) / 10" by simp
  then have "R 5 \<le> R (of_int (js_round (R (s * 10))) / 10)" by (rule rounding_ok_mono [OF ok])
  moreover have "R 5 = 5" using rounding_ok_int [OF ok, of 5] by simp
  ultimately show ?thesis by (simp add: round1_def)
qed

lemma recent_scores_eq:
  "(let pushed = map entry_score (scores d) @ [cur]
    in if length pushed > 10 then tl pushed else pushed)
   = map entry_score (if length (scores d) + 1 > 10 then tl (scores d @ [e\<lparr>entry_score := cur\<rparr>])
                      else scores d @ [e\<lparr>entry_score := cur\<rparr>])"
  by (simp add: Let_def map_tl)

lemma retained_after:
  "retained_scores (snd (analyzeHTFInvestmentWithStability R ph hh now c)) (coin_id c) =
     (let pushed = retained_scores hh (coin_id c) @ [of_int (fst (analyzeHTFInvestment R ph c))]
      in if length pushed > 10 then tl pushed else pushed)"
  by (simp add: analyzeHTFInvestmentWithStability_def retained_scores_def Let_def map_tl
      split: option.splits)

lemma res_score_eq:
  "res_score (fst (analyzeHTFInvestmentWithStability R ph hh now c)) =
     round1 R (stabilizedScore R
       (retained_scores (snd (analyzeHTFInvestmentWithStability R ph hh now c)) (coin_id c))
       (of_int (fst (analyzeHTFInvestment R ph c))))"
  unfolding retained_after
  by (simp add: analyzeHTFInvestmentWithStability_def retained_scores_def Let_def
      split: option.splits)

text \<open>
  C2. Floor rule of the long-horizon channel: when at least 3 of the scores retained
  after the push are 5 or more and the current raw score is at least 4, the published
  score is at least 5.
\<close>

theorem htf_floor_rule:
  assumes "rounding_ok R"
    and "3 \<le> qualifyingScores
                 (retained_scores (snd (analyzeHTFInvestmentWithStability R ph hh now c)) (coin_id c))"
    and "4 \<le> fst (analyzeHTFInvestment R ph c)"
  shows "5 \<le> res_score (fst (analyzeHTFInvestmentWithStability R ph hh now c))"
proof -
  let ?rs = "retained_scores (snd (analyzeHTFInvestmentWithStability R ph hh now c)) (coin_id c)"
  let ?cur = "of_int (fst (analyzeHTFInvestment R ph c)) :: rat"
  from assms(3) have "4 \<le> ?cur" by simp
  with assms(2) have "hysteresis_applies ?rs ?cur" by (simp add: hysteresis_applies_def)
  then have "5 \<le> stabilizedScore R ?rs ?cur" by (simp add: stabilizedScore_def Let_def)
  then have "5 \<le> round1 R (stabilizedScore R ?rs ?cur)" by (rule round1_at_least_5 [OF assms(1)])
  then show ?thesis by (simp only: res_score_eq)
qed

theorem htf_floor_rule_witness:
  "qualifyingScores (retained_scores
      (snd (analyzeHTFInvestmentWithStability exact Map.empty steady_history 1000 steady_coin))
      ''steady'') = 3 \<and>
   fst (analyzeHTFInvestment exact Map.empty steady_coin) = 4 \<and>
   htf_avgScore exact (retained_scores
      (snd (analyzeHTFInvestmentWithStability exact Map.empty steady_history 1000 steady_coin))
      ''steady'') = 19 / 10 \<and>
   5 \<le> res_score (fst (analyzeHTFInvestmentWithStability exact Map.empty steady_history 1000 steady_coin))"
proof -
  have ok: "rounding_ok exact" by (rule rounding_ok_exact)
  have cur: "fst (analyzeHTFInvestment exact Map.empty steady_coin) = 4" by code_simp
  have id: "coin_id steady_coin = ''steady''" by (simp add: steady_coin_def)
  have rs: "retained_scores
      (snd (analyzeHTFInvestmentWithStability exact Map.empty steady_history 1000 steady_coin))
      ''steady'' = [5, 5, 5, 0, 0, 0, 0, 0, 0, 4]"
    using retained_after [of exact Map.empty steady_history 1000 steady_coin]
    by (simp add: id cur retained_scores_def steady_history_def)
  have q: "qualifyingScores [5, 5, 5, 0, 0, 0, 0, 0, 0, 4 :: rat] = 3"
    by (simp add: qualifyingScores_def)
  have avg: "htf_avgScore exact [5, 5, 5, 0, 0, 0, 0, 0, 0, 4] = 19 / 10"
    by (simp add: htf_avgScore_def js_sum_def exact_def)
  from htf_floor_rule [OF ok, of Map.empty steady_history 1000 steady_coin] cur id rs q avg
  show ?thesis by simp
qed

section \<open>Cycle-phase stabiliser: proofs\<close>

lemma count_list_two:
  "p \<noteq> q \<Longrightarrow> count_list w p + count_list w q \<le> length w"
  by (induction w) auto

lemma majority_beats:
  assumes "length w < 2 * count_list w p" and "q \<noteq> p"
  shows "count_list w q < count_list w p"
  using count_list_two [of p q w] assms by simp

lemma reduce_keeps_majority:
  assumes "length w < 2 * count_list w p"
  shows "foldl (\<lambda>a b. if count_list w a > count_list w b then a else b) p ks = p"
proof (induction ks)
  case Nil
  show ?case by simp
next
  case (Cons k ks)
  have "(if count_list w p > count_list w k then p else k) = p"
    using majority_beats [OF assms, of k] by (cases "k = p") simp_all
  with Cons show ?case by simp
qed

lemma reduce_finds_majority:
  assumes "length w < 2 * count_list w p" and "p \<in> set ks"
  shows "foldl (\<lambda>a b. if count_list w a > count_list w b then a else b) a ks = p"
  using assms(2)
proof (induction ks arbitrary: a)
  case Nil
  then show ?case by simp
next
  case (Cons k ks)
  show ?case
  proof (cases "k = p")
    case True
    have "(if count_list w a > count_list w p then a else p) = p"
      using majority_beats [OF assms(1), of a] by (cases "a = p") simp_all
    with True show ?thesis by (simp add: reduce_keeps_majority [OF assms(1)])
  next
    case False
    with Cons.prems have "p \<in> set ks" by simp
    from Cons.IH [OF this] show ?thesis by simp
  qed
qed

lemma set_phase_keys: "set (phase_keys w) = set w"
  by (simp add: phase_keys_def)

lemma dominant_of_majority:
  assumes "length w < 2 * count_list w p"
  shows "dominant_of w = Some p"
proof -
  from assms have "count_list w p \<noteq> 0" by auto
  then have "p \<in> set w" using count_list_0_iff [of w p] by simp
  then have mem: "p \<in> set (phase_keys w)" by (simp add: set_phase_keys)
  then obtain k ks where ks: "phase_keys w = k # ks" by (cases "phase_keys w") auto
  show ?thesis
  proof (cases "k = p")
    case True
    with ks show ?thesis by (simp add: dominant_of_def reduce_keeps_majority [OF assms])
  next
    case False
    with mem ks have "p \<in> set ks" by simp
    with ks show ?thesis by (simp add: dominant_of_def reduce_finds_majority [OF assms])
  qed
qed

lemma dominant_of_nonempty: "w \<noteq> [] \<Longrightarrow> \<exists>d. dominant_of w = Some d"
proof -
  assume "w \<noteq> []"
  then have "set (phase_keys w) \<noteq> {}" by (simp add: set_phase_keys)
  then show ?thesis by (cases "phase_keys w") (auto simp: dominant_of_def)
qed

lemma share_majority:
  assumes ok: "rounding_ok R" and n: "0 < n" and sh: "R (3 / 5) < R (of_nat c / of_nat n)"
  shows "n < 2 * c"
proof (rule ccontr)
  assume "\<not> n < 2 * c"
  then have "2 * c \<le> n" by simp
  then have "(of_nat (2 * c) :: rat) \<le> of_nat n" by (simp only: of_nat_le_iff)
  then have "(of_nat c :: rat) / of_nat n \<le> 1 / 2" using n by (simp add: divide_le_eq)
  then have "(of_nat c :: rat) / of_nat n \<le> 3 / 5" by simp
  then have "R (of_nat c / of_nat n) \<le> R (3 / 5)" by (rule rounding_ok_mono [OF ok])
  with sh show False by simp
qed

lemma slice_last_nonempty: "h \<noteq> [] \<Longrightarrow> slice_last (Suc n) h \<noteq> []"
  by (cases h) (auto simp: slice_last_def)

lemma slice_last_subset: "set (slice_last n h) \<subseteq> set h"
  by (auto simp: slice_last_def dest: in_set_dropD)

lemma push_cycle_nonempty: "push_cycle h e \<noteq> []"
  by (cases h) (auto simp: push_cycle_def Let_def)

lemma push_cycle_eq:
  "push_cycle h e = (if length h \<ge> 12 then tl h @ [e] else h @ [e])"
  by (cases h) (auto simp: push_cycle_def Let_def)

lemma history_after:
  "snd (determineCyclePhaseWithStability R h now (Some oc)) = push_cycle h (cycleEntry now oc)"
  by (simp add: determineCyclePhaseWithStability_def Let_def split: option.splits)

text \<open>The conditions of the claim and the tests of the code.\<close>

lemma last_entries_slice: "0 < n \<Longrightarrow> last_entries n h = slice_last n h"
  by (simp add: slice_last_def last_entries_def)

lemma rounded_mean_eq: "rounded_mean R xs = mean_of R xs"
  by (simp add: mean_of_def rounded_mean_def js_sum_def)

lemma rounded_mean_exact: "xs \<noteq> [] \<Longrightarrow> rounded_mean exact xs = sum_list xs / of_nat (length xs)"
proof -
  have "foldl (\<lambda>s x. exact (s + x)) a xs = a + sum_list xs" for a
    by (induction xs arbitrary: a) (simp_all add: exact_def)
  from this [of 0] show ?thesis by (simp add: rounded_mean_def exact_def)
qed

lemma stabilised_result:
  assumes ok: "rounding_ok R" and st: "stabilises R (push_cycle h (cycleEntry now oc)) oc p"
  shows "\<exists>r e. fst (determineCyclePhaseWithStability R h now (Some oc)) = Inr (Some r) \<and>
           phase r = p \<and> dominantPhase (stability r) = p \<and>
           e \<in> set (push_cycle h (cycleEntry now oc)) \<and> phase e = p \<and>
           description r = description e @ '' (stabilized)'' \<and> action r = action e"
proof -
  let ?h = "push_cycle h (cycleEntry now oc)"
  let ?w = "map phase (slice_last 8 ?h)"
  have s8: "last_entries 8 ?h = slice_last 8 ?h" and s5: "last_entries 5 ?h = slice_last 5 ?h"
    by (simp_all add: last_entries_slice)
  from st have len: "3 \<le> length ?h"
    and sh: "R (3 / 5) < R (of_nat (count_list ?w p) / of_nat (length ?w))"
    and cl: "scores_close R ?h oc"
    by (simp_all add: stabilises_def phase_share_def s8)
  have "slice_last 8 ?h \<noteq> []"
    using slice_last_nonempty [OF push_cycle_nonempty, of 7 h "cycleEntry now oc"] by simp
  then have "0 < length ?w" by simp
  from share_majority [OF ok this sh] have maj: "length ?w < 2 * count_list ?w p" .
  then have dom: "dominant_of ?w = Some p" by (rule dominant_of_majority)
  from maj have "count_list ?w p \<noteq> 0" by auto
  then have "p \<in> set ?w" using count_list_0_iff [of ?w p] by simp
  then have "\<exists>e\<in>set ?h. phase e = p" using slice_last_subset [of 8 ?h] by auto
  then obtain e where e: "find (\<lambda>entry. phase entry = p) ?h = Some e"
    by (cases "find (\<lambda>entry. phase entry = p) ?h") (auto simp: find_None_iff)
  then have e_in: "e \<in> set ?h" and e_ph: "phase e = p"
    by (auto simp: find_Some_iff)
  from cl have cl': "\<bar>R (overallRiskScore oc - mean_of R (map risk (slice_last 5 ?h)))\<bar> < 2"
    "\<bar>R (overallOpportunityScore oc - mean_of R (map opportunity (slice_last 5 ?h)))\<bar> < 2"
    by (simp_all add: scores_close_def s5 rounded_mean_eq)
  from len dom sh cl' e e_in e_ph show ?thesis
    by (auto simp: determineCyclePhaseWithStability_def Let_def)
qed

lemma raw_result:
  assumes "\<forall>p. \<not> stabilises R (push_cycle h (cycleEntry now oc)) oc p"
  shows "fst (determineCyclePhaseWithStability R h now (Some oc)) =
           Inr (Some (raw_phase (push_cycle h (cycleEntry now oc)) oc))"
proof -
  let ?h = "push_cycle h (cycleEntry now oc)"
  let ?w = "map phase (slice_last 8 ?h)"
  have s8: "last_entries 8 ?h = slice_last 8 ?h" and s5: "last_entries 5 ?h = slice_last 5 ?h"
    by (simp_all add: last_entries_slice)
  show ?thesis
  proof (cases "3 \<le> length ?h")
    case False
    then show ?thesis by (simp add: determineCyclePhaseWithStability_def Let_def)
  next
    case True
    have "slice_last 8 ?h \<noteq> []"
      using slice_last_nonempty [OF push_cycle_nonempty, of 7 h "cycleEntry now oc"] by simp
    then have "?w \<noteq> []" by simp
    from dominant_of_nonempty [OF this] obtain d where d: "dominant_of ?w = Some d" by blast
    from assms have "\<not> stabilises R ?h oc d" by blast
    with True d show ?thesis
      by (auto simp: determineCyclePhaseWithStability_def Let_def stabilises_def
          phase_share_def scores_close_def s8 s5 rounded_mean_eq)
  qed
qed

text \<open>
  C1. Cycle-phase stabilisation. A call with an observation appends the entry made of
  the raw phase with its description and action, the time, the two scores, the bias and
  the strength, and keeps the last 12. When the history then has at least 3 entries, a
  phase holds more than 0.6 of the last 8 entries, and the current risk and opportunity
  scores are each within 2 of their means over the last 5 entries, that phase is
  published, with the description of an entry of that phase followed by "(stabilized)".
  When no phase meets these conditions the raw phase is published with stability ratio
  100 and both deviations 0.
\<close>

theorem cycle_phase_stabilisation:
  assumes "rounding_ok R"
  shows "(let out = determineCyclePhaseWithStability R h now (Some oc);
              h' = snd out;
              raw = determineCyclePhase oc
          in h' = (if length h \<ge> 12 then tl h else h) @
                    [\<lparr>phase = phase raw, description = description raw, action = action raw,
                      timestamp = now, risk = overallRiskScore oc,
                      opportunity = overallOpportunityScore oc,
                      entry_bias = cycleBias oc, entry_strength = cycleStrength oc\<rparr>] \<and>
             (length h \<le> 12 \<longrightarrow> length h' \<le> 12) \<and>
             (stabilises R h' oc p \<longrightarrow>
                (\<exists>r e. fst out = Inr (Some r) \<and> phase r = p \<and>
                        dominantPhase (stability r) = p \<and> e \<in> set h' \<and> phase e = p \<and>
                        description r = description e @ '' (stabilized)'' \<and>
                        action r = action e)) \<and>
             ((\<forall>q. \<not> stabilises R h' oc q) \<longrightarrow>
                (\<exists>r. fst out = Inr (Some r) \<and> phase r = phase raw \<and>
                      description r = description raw \<and> action r = action raw \<and>
                      stabilityRatio (stability r) = 100 \<and>
                      riskVolatility (stability r) = 0 \<and>
                      opportunityVolatility (stability r) = 0)))"
proof -
  let ?e = "cycleEntry now oc"
  let ?raw = "determineCyclePhase oc"
  have a: "push_cycle h ?e = (if length h \<ge> 12 then tl h else h) @
             [\<lparr>phase = phase ?raw, description = description ?raw, action = action ?raw,
               timestamp = now, risk = overallRiskScore oc,
               opportunity = overallOpportunityScore oc,
               entry_bias = cycleBias oc, entry_strength = cycleStrength oc\<rparr>]"
    by (simp add: push_cycle_eq cycleEntry_def Let_def)
  have b: "length h \<le> 12 \<longrightarrow> length (push_cycle h ?e) \<le> 12"
    by (auto simp: push_cycle_eq)
  have c: "stabilises R (push_cycle h ?e) oc p \<longrightarrow>
             (\<exists>r e. fst (determineCyclePhaseWithStability R h now (Some oc)) = Inr (Some r) \<and>
                phase r = p \<and> dominantPhase (stability r) = p \<and>
                e \<in> set (push_cycle h ?e) \<and> phase e = p \<and>
                description r = description e @ '' (stabilized)'' \<and> action r = action e)"
    using stabilised_result [OF assms, of h now oc p] by blast
  have d: "(\<forall>q. \<not> stabilises R (push_cycle h ?e) oc q) \<longrightarrow>
             (\<exists>r. fst (determineCyclePhaseWithStability R h now (Some oc)) = Inr (Some r) \<and>
                phase r = phase ?raw \<and> description r = description ?raw \<and>
                action r = action ?raw \<and>
                stabilityRatio (stability r) = 100 \<and>
                riskVolatility (stability r) = 0 \<and>
                opportunityVolatility (stability r) = 0)"
    using raw_result [of R h now oc] by (auto simp: raw_phase_def Let_def)
  from a b c d show ?thesis
    unfolding Let_def history_after by (intro conjI) (simp_all only:)
qed

theorem cycle_phase_stabilisation_witness:
  "(\<exists>r. fst (determineCyclePhaseWithStability exact mid_history 5 (Some early_reading))
           = Inr (Some r) \<and> phase r = MidCycle) \<and>
   (\<exists>r. fst (determineCyclePhaseWithStability exact mid_history 5 (Some top_reading))
           = Inr (Some r) \<and> phase r = CycleTopWarning \<and> stabilityRatio (stability r) = 100) \<and>
   (\<exists>r. fst (determineCyclePhaseWithStability exact mixed_history 5 (Some early_reading))
           = Inr (Some r) \<and> phase r = EarlyCycle \<and> stabilityRatio (stability r) = 100) \<and>
   snd (determineCyclePhaseWithStability exact full_history 13 (Some early_reading))
     = map mid_entry [2..<13] @ [early_entry 13]"
proof -
  have ok: "rounding_ok exact" by (rule rounding_ok_exact)
  have early: "determineCyclePhase early_reading =
      \<lparr>phase = EarlyCycle, description = ''Early cycle stage - good entry opportunities'',
       action = ''Buy Dips''\<rparr>"
    by (simp add: determineCyclePhase_def early_reading_def)
  have top: "phase (determineCyclePhase top_reading) = CycleTopWarning"
    by (simp add: determineCyclePhase_def top_reading_def)
  have e5: "cycleEntry 5 early_reading = early_entry 5" "cycleEntry 13 early_reading = early_entry 13"
    by code_simp+
  have h1: "snd (determineCyclePhaseWithStability exact mid_history 5 (Some early_reading))
              = mid_history @ [early_entry 5]"
    by (simp add: history_after push_cycle_eq mid_history_def e5)
  have st: "stabilises exact (mid_history @ [early_entry 5]) early_reading MidCycle"
    by code_simp
  have h2: "snd (determineCyclePhaseWithStability exact mid_history 5 (Some top_reading))
              = mid_history @ [cycleEntry 5 top_reading]"
    by (simp add: history_after push_cycle_eq mid_history_def)
  have far: "\<not> scores_close exact (mid_history @ [cycleEntry 5 top_reading]) top_reading"
    by code_simp
  then have no2: "\<forall>q. \<not> stabilises exact (mid_history @ [cycleEntry 5 top_reading]) top_reading q"
    by (simp add: stabilises_def)
  have h3: "snd (determineCyclePhaseWithStability exact mixed_history 5 (Some early_reading))
              = mixed_history @ [early_entry 5]"
    by (simp add: history_after push_cycle_eq mixed_history_def e5)
  have no3: "\<forall>q. \<not> stabilises exact (mixed_history @ [early_entry 5]) early_reading q"
  proof
    fix q
    have "\<not> exact (3 / 5) < phase_share exact (mixed_history @ [early_entry 5]) q"
      by (induct q) code_simp+
    then show "\<not> stabilises exact (mixed_history @ [early_entry 5]) early_reading q"
      by (simp add: stabilises_def)
  qed
  have h4: "snd (determineCyclePhaseWithStability exact full_history 13 (Some early_reading))
              = tl full_history @ [early_entry 13]"
    by (simp add: history_after push_cycle_eq full_history_def e5)
  have t4: "tl full_history = map mid_entry [2..<13]"
    by code_simp
  from cycle_phase_stabilisation [OF ok, of mid_history 5 early_reading MidCycle] st
  have a: "\<exists>r. fst (determineCyclePhaseWithStability exact mid_history 5 (Some early_reading))
                 = Inr (Some r) \<and> phase r = MidCycle"
    unfolding Let_def h1 by blast
  from cycle_phase_stabilisation [OF ok, of mid_history 5 top_reading MidCycle] no2 top
  have b: "\<exists>r. fst (determineCyclePhaseWithStability exact mid_history 5 (Some top_reading))
                 = Inr (Some r) \<and> phase r = CycleTopWarning \<and> stabilityRatio (stability r) = 100"
    unfolding Let_def h2 by auto
  from cycle_phase_stabilisation [OF ok, of mixed_history 5 early_reading MidCycle] no3 early
  have c: "\<exists>r. fst (determineCyclePhaseWithStability exact mixed_history 5 (Some early_reading))
                 = Inr (Some r) \<and> phase r = EarlyCycle \<and> stabilityRatio (stability r) = 100"
    unfolding Let_def h3 by auto
  from a b c h4 t4 show ?thesis by simp
qed

section \<open>Resilient fetcher: proofs\<close>

declare fetch_attempts.simps [simp del]

lemma issued_handle [simp]: "issued (handleRateLimitError e s) = issued s"
  by (simp add: handleRateLimitError_def Let_def)

lemma clock_handle [simp]: "clock (handleRateLimitError e s) = clock s"
  by (simp add: handleRateLimitError_def Let_def)

lemma cache_handle [simp]: "apiCache (handleRateLimitError e s) = apiCache s"
  by (simp add: handleRateLimitError_def Let_def)

lemma limited_handle [simp]: "isLimited (rateLimitInfo (handleRateLimitError e s))"
  by (simp add: handleRateLimitError_def Let_def)

lemma reset_handle_429:
  "resetTime (rateLimitInfo (handleRateLimitError (HttpError 429 (Some S)) s)) = Some (clock s + S * 1000)"
  by (simp add: handleRateLimitError_def Let_def)

lemma reset_handle_other:
  "status \<noteq> 429 \<Longrightarrow>
   resetTime (rateLimitInfo (handleRateLimitError (HttpError status h) s)) = Some (clock s + 60000)"
  by (simp add: handleRateLimitError_def Let_def)

lemma cached_handle [simp]: "cached_or_empty (handleRateLimitError e s) k = cached_or_empty s k"
  by (simp add: cached_or_empty_def)

lemma attempts_server_error:
  assumes "attempt \<le> 3" and "net (issued s) = (l, HttpError status h)"
    and "status \<noteq> 429" and "500 \<le> status"
  shows "fetch_attempts net k attempt e s =
           fetch_attempts net k (attempt + 1) (Some (HttpError status h))
             (sleep (min (1000 * 2 ^ (attempt - 1)) 30000)
                (s\<lparr>issued := issued s + 1, clock := clock s + l\<rparr>))"
  using assms by (subst fetch_attempts.simps) (simp add: Let_def)

lemma attempts_exhausted:
  "3 < attempt \<Longrightarrow> fetch_attempts net k attempt e s = ((None, e), s)"
  by (subst fetch_attempts.simps) simp

text \<open>Three server errors in a row.\<close>

lemma attempts_three_server_errors:
  assumes "net (issued s) = (l1, HttpError 503 h1)"
    and "net (issued s + 1) = (l2, HttpError 503 h2)"
    and "net (issued s + 2) = (l3, HttpError 503 h3)"
  shows "fetch_attempts net k 1 None s =
           ((None, Some (HttpError 503 h3)),
            s\<lparr>issued := issued s + 3, clock := clock s + l1 + 1000 + l2 + 2000 + l3 + 4000\<rparr>)"
proof -
  let ?s1 = "s\<lparr>issued := Suc (issued s), clock := clock s + l1 + 1000\<rparr>"
  let ?s2 = "s\<lparr>issued := Suc (Suc (issued s)), clock := clock s + l1 + 1000 + l2 + 2000\<rparr>"
  let ?s3 = "s\<lparr>issued := Suc (Suc (Suc (issued s))),
               clock := clock s + l1 + 1000 + l2 + 2000 + l3 + 4000\<rparr>"
  have a: "fetch_attempts net k 1 None s = fetch_attempts net k 2 (Some (HttpError 503 h1)) ?s1"
    using attempts_server_error [of 1 net s l1 503 h1 k None] assms(1)
    by (simp add: sleep_def numeral_2_eq_2 numeral_3_eq_3)
  have b: "fetch_attempts net k 2 (Some (HttpError 503 h1)) ?s1 =
           fetch_attempts net k 3 (Some (HttpError 503 h2)) ?s2"
    using attempts_server_error [of 2 net ?s1 l2 503 h2 k "Some (HttpError 503 h1)"] assms(2)
    by (simp add: sleep_def add.commute [of 2])
  have c: "fetch_attempts net k 3 (Some (HttpError 503 h2)) ?s2 =
           fetch_attempts net k 4 (Some (HttpError 503 h3)) ?s3"
    using attempts_server_error [of 3 net ?s2 l3 503 h3 k "Some (HttpError 503 h2)"] assms(3)
    by (simp add: sleep_def add.commute [of 3])
  have d: "fetch_attempts net k 4 (Some (HttpError 503 h3)) ?s3 = ((None, Some (HttpError 503 h3)), ?s3)"
    by (rule attempts_exhausted) simp
  have e: "?s3 = s\<lparr>issued := issued s + 3, clock := clock s + l1 + 1000 + l2 + 2000 + l3 + 4000\<rparr>"
    by simp
  from a b c d show ?thesis unfolding e [symmetric] by simp
qed

text \<open>
  C4. Exhausted retries: a call that reaches the network and gets three 503 responses
  issues exactly 3 requests, leaves \<open>isLimited\<close> set with \<open>resetTime\<close> 60 seconds after
  the end of the call, and returns the payload of the cache entry for its key when there
  is one, the empty array when there is none; it does not throw.
\<close>

theorem exhausted_retry_backoff:
  assumes "\<not> isLimited (rateLimitInfo (checkRateLimitExpiry s))"
    and "\<not> (shouldUseCachedData (checkRateLimitExpiry s) \<and> apiCache s limit \<noteq> None)"
    and "net (issued s) = (l1, HttpError 503 h1)"
    and "net (issued s + 1) = (l2, HttpError 503 h2)"
    and "net (issued s + 2) = (l3, HttpError 503 h3)"
  shows "fst (getTopCryptos net limit s)
           = Inr (case apiCache s limit of Some entry \<Rightarrow> cache_data entry | None \<Rightarrow> []) \<and>
         issued (snd (getTopCryptos net limit s)) = issued s + 3 \<and>
         isLimited (rateLimitInfo (snd (getTopCryptos net limit s))) \<and>
         clock (snd (getTopCryptos net limit s)) = clock s + l1 + l2 + l3 + 7000 \<and>
         resetTime (rateLimitInfo (snd (getTopCryptos net limit s)))
           = Some (clock (snd (getTopCryptos net limit s)) + 60000)"
proof -
  let ?c = "checkRateLimitExpiry s"
  have ci: "issued ?c = issued s" and cc: "apiCache ?c = apiCache s"
    and ck: "clock ?c = clock s"
    by (simp_all add: checkRateLimitExpiry_def)
  from assms(3-5) have
    "fetch_attempts net limit 1 None ?c =
       ((None, Some (HttpError 503 h3)),
        ?c\<lparr>issued := issued ?c + 3, clock := clock ?c + l1 + 1000 + l2 + 2000 + l3 + 4000\<rparr>)"
    by (intro attempts_three_server_errors) (simp_all add: ci)
  with assms(1,2) show ?thesis
    by (simp add: getTopCryptos_def Let_def cc ci ck reset_handle_other cached_or_empty_def)
qed

lemma attempts_429:
  assumes "fetch_attempts net key attempt e s = ((r, e'), s')"
    and "issued s \<le> k" and "k < issued s'" and "net k = (lat, HttpError 429 hdr)"
  shows "r = None \<and> e' = Some (HttpError 429 hdr) \<and> issued s' = Suc k \<and>
         handleRateLimitError (HttpError 429 hdr) s' = s'"
  using assms
proof (induction net key attempt e s rule: fetch_attempts.induct)
  case (1 net cacheKey attempt lastError s)
  show ?case
  proof (cases "attempt \<le> 3")
    case False
    with "1.prems" show ?thesis by (simp add: fetch_attempts.simps)
  next
    case True
    obtain latency answer where na: "net (issued s) = (latency, answer)"
      by (cases "net (issued s)") auto
    let ?s1 = "s\<lparr>issued := issued s + 1, clock := clock s + latency\<rparr>"
    show ?thesis
    proof (cases "k = issued s")
      case True
      with na "1.prems"(4) have ans: "answer = HttpError 429 hdr" and "latency = lat" by simp_all
      from "1.prems"(1) \<open>attempt \<le> 3\<close> na ans True show ?thesis
        by (subst (asm) fetch_attempts.simps)
          (auto simp: Let_def handleRateLimitError_def split: option.splits)
    next
      case False
      with "1.prems"(2) have k: "issued ?s1 \<le> k" by simp
      have sl: "\<And>ms. issued (sleep ms ?s1) \<le> k" using k by (simp add: sleep_def)
      from "1.prems"(1) \<open>attempt \<le> 3\<close> na "1.prems"(3) False "1.prems"(2)
      show ?thesis
      proof (cases answer)
        case (Ok h payload)
        with "1.prems"(1) \<open>attempt \<le> 3\<close> na "1.prems"(3) False "1.prems"(2) show ?thesis
          by (subst (asm) fetch_attempts.simps) (auto simp: Let_def updateRateLimitInfo_def split: option.splits)
      next
        case (HttpError status h)
        show ?thesis
        proof (cases "status = 429 \<or> status < 500")
          case True
          with HttpError "1.prems"(1) \<open>attempt \<le> 3\<close> na "1.prems"(3) \<open>k \<noteq> issued s\<close> "1.prems"(2)
          show ?thesis
            by (subst (asm) fetch_attempts.simps) (auto simp: Let_def split: if_splits)
        next
          case False
          then have st: "status \<noteq> 429" "500 \<le> status" by simp_all
          from "1.prems"(1) \<open>attempt \<le> 3\<close> na HttpError st
          have rec: "fetch_attempts net cacheKey (attempt + 1) (Some answer)
                       (sleep (min (1000 * 2 ^ (attempt - 1)) 30000) ?s1) = ((r, e'), s')"
            by (subst (asm) fetch_attempts.simps) (simp add: Let_def)
          from "1.IH"(1) [OF \<open>attempt \<le> 3\<close> refl na [symmetric] refl HttpError st(1) st(2) rec sl "1.prems"(3,4)]
          show ?thesis .
        qed
      next
        case Timeout
        from "1.prems"(1) \<open>attempt \<le> 3\<close> na Timeout
        have rec: "fetch_attempts net cacheKey (attempt + 1) (Some answer)
                     (sleep (min (2000 * attempt) 10000) ?s1) = ((r, e'), s')"
          by (subst (asm) fetch_attempts.simps) (simp add: Let_def)
        from "1.IH"(2) [OF \<open>attempt \<le> 3\<close> refl na [symmetric] refl Timeout rec sl "1.prems"(3,4)]
        show ?thesis .
      next
        case NetworkError
        from "1.prems"(1) \<open>attempt \<le> 3\<close> na NetworkError
        have rec: "fetch_attempts net cacheKey (attempt + 1) (Some answer)
                     (sleep (min (1000 * 2 ^ (attempt - 1)) 30000) ?s1) = ((r, e'), s')"
          by (subst (asm) fetch_attempts.simps) (simp add: Let_def)
        from "1.IH"(3) [OF \<open>attempt \<le> 3\<close> refl na [symmetric] refl NetworkError rec sl "1.prems"(3,4)]
        show ?thesis .
      qed
    qed
  qed
qed

lemma attempts_issued_mono:
  "issued s \<le> issued (snd (fetch_attempts net key attempt e s))"
proof (induction net key attempt e s rule: fetch_attempts.induct)
  case (1 net cacheKey attempt lastError s)
  show ?case
  proof (cases "attempt \<le> 3")
    case False
    then show ?thesis by (simp add: fetch_attempts.simps)
  next
    case True
    obtain latency answer where na: "net (issued s) = (latency, answer)"
      by (cases "net (issued s)") auto
    let ?s1 = "s\<lparr>issued := issued s + 1, clock := clock s + latency\<rparr>"
    show ?thesis
    proof (cases answer)
      case (Ok h payload)
      with True na show ?thesis
        by (subst fetch_attempts.simps) (simp add: Let_def updateRateLimitInfo_def split: option.splits)
    next
      case (HttpError status h)
      show ?thesis
      proof (cases "status = 429 \<or> status < 500")
        case True
        with HttpError \<open>attempt \<le> 3\<close> na show ?thesis
          by (subst fetch_attempts.simps) (auto simp: Let_def)
      next
        case False
        then have st: "status \<noteq> 429" "500 \<le> status" by simp_all
        from "1.IH"(1) [OF \<open>attempt \<le> 3\<close> refl na [symmetric] refl HttpError st]
        have "issued (sleep (min (1000 * 2 ^ (attempt - 1)) 30000) ?s1)
                \<le> issued (snd (fetch_attempts net cacheKey (attempt + 1) (Some answer)
                      (sleep (min (1000 * 2 ^ (attempt - 1)) 30000) ?s1)))" .
        with HttpError st \<open>attempt \<le> 3\<close> na show ?thesis
          by (subst fetch_attempts.simps) (simp add: Let_def sleep_def)
      qed
    next
      case Timeout
      from "1.IH"(2) [OF \<open>attempt \<le> 3\<close> refl na [symmetric] refl Timeout]
      have "issued (sleep (min (2000 * attempt) 10000) ?s1)
              \<le> issued (snd (fetch_attempts net cacheKey (attempt + 1) (Some answer)
                    (sleep (min (2000 * attempt) 10000) ?s1)))" .
      with Timeout \<open>attempt \<le> 3\<close> na show ?thesis
        by (subst fetch_attempts.simps) (simp add: Let_def sleep_def)
    next
      case NetworkError
      from "1.IH"(3) [OF \<open>attempt \<le> 3\<close> refl na [symmetric] refl NetworkError]
      have "issued (sleep (min (1000 * 2 ^ (attempt - 1)) 30000) ?s1)
              \<le> issued (snd (fetch_attempts net cacheKey (attempt + 1) (Some answer)
                    (sleep (min (1000 * 2 ^ (attempt - 1)) 30000) ?s1)))" .
      with NetworkError \<open>attempt \<le> 3\<close> na show ?thesis
        by (subst fetch_attempts.simps) (simp add: Let_def sleep_def)
    qed
  qed
qed

lemma first_attempt_issues:
  "issued s < issued (snd (fetch_attempts net key 1 e s))"
proof -
  obtain latency answer where na: "net (issued s) = (latency, answer)"
    by (cases "net (issued s)") auto
  let ?s1 = "s\<lparr>issued := issued s + 1, clock := clock s + latency\<rparr>"
  have m: "\<And>ms e'. issued s < issued (snd (fetch_attempts net key (1 + 1) e' (sleep ms ?s1)))"
  proof -
    fix ms e'
    have "issued (sleep ms ?s1) \<le> issued (snd (fetch_attempts net key (1 + 1) e' (sleep ms ?s1)))"
      by (rule attempts_issued_mono)
    then show "issued s < issued (snd (fetch_attempts net key (1 + 1) e' (sleep ms ?s1)))"
      by (simp add: sleep_def)
  qed
  show ?thesis
    using na m
    by (subst fetch_attempts.simps)
      (auto simp: Let_def updateRateLimitInfo_def split: response.splits option.splits)
qed

lemma issued_check [simp]: "issued (checkRateLimitExpiry s) = issued s"
  by (simp add: checkRateLimitExpiry_def)

lemma cache_check [simp]: "apiCache (checkRateLimitExpiry s) = apiCache s"
  by (simp add: checkRateLimitExpiry_def)

lemma throttle_on_429:
  assumes "issued s \<le> k" and "k < issued (snd (getTopCryptos net limit s))"
    and "net k = (lat, HttpError 429 (Some S))"
  shows "isLimited (rateLimitInfo (snd (getTopCryptos net limit s))) \<and>
         resetTime (rateLimitInfo (snd (getTopCryptos net limit s)))
           = Some (clock (snd (getTopCryptos net limit s)) + S * 1000) \<and>
         issued (snd (getTopCryptos net limit s)) = Suc k"
proof -
  let ?c = "checkRateLimitExpiry s"
  obtain r e' s1 where fa: "fetch_attempts net limit (Suc 0) None ?c = ((r, e'), s1)"
    by (cases "fetch_attempts net limit (Suc 0) None ?c") auto
  show ?thesis
  proof (cases "(shouldUseCachedData ?c \<and> apiCache ?c limit \<noteq> None) \<or> isLimited (rateLimitInfo ?c)")
    case True
    then have "issued (snd (getTopCryptos net limit s)) = issued s"
      by (auto simp: getTopCryptos_def Let_def)
    with assms(1,2) show ?thesis by simp
  next
    case False
    then have g: "getTopCryptos net limit s =
        (case ((r, e'), s1) of
           ((Some payload, lastError), s') \<Rightarrow> (Inr payload, s')
         | ((None, None), s') \<Rightarrow> (Inl TypeError, s')
         | ((None, Some error), s') \<Rightarrow>
             (Inr (cached_or_empty (handleRateLimitError error s') limit),
              handleRateLimitError error s'))"
      by (auto simp: getTopCryptos_def Let_def fa split: option.splits)
    then have "issued (snd (getTopCryptos net limit s)) = issued s1"
      by (auto split: option.splits)
    with assms(2) have k: "k < issued s1" by simp
    from assms(1) have "issued ?c \<le> k" by simp
    from attempts_429 [OF fa this k assms(3)]
    have "r = None" and "e' = Some (HttpError 429 (Some S))" and "issued s1 = Suc k" by simp_all
    with g show ?thesis by (simp add: reset_handle_429)
  qed
qed

lemma throttled_serves_cache:
  assumes "isLimited (rateLimitInfo s)"
    and "\<forall>t. resetTime (rateLimitInfo s) = Some t \<longrightarrow> clock s \<le> t"
  shows "getTopCryptos net limit s = (Inr (cached_or_empty s limit), s)"
proof -
  from assms have c: "checkRateLimitExpiry s = s"
    by (cases "resetTime (rateLimitInfo s)") (auto simp: checkRateLimitExpiry_def time_set_def)
  from assms(1) show ?thesis
    by (auto simp: getTopCryptos_def Let_def c shouldUseCachedData_def cached_or_empty_def)
qed

lemma expiry_clears:
  assumes "isLimited (rateLimitInfo s)" and "resetTime (rateLimitInfo s) = Some t"
    and "0 < t" and "t < clock s"
  shows "\<not> isLimited (rateLimitInfo (checkRateLimitExpiry s)) \<and>
         (if cache_fresh s limit
          then getTopCryptos net limit s =
                 (Inr (cached_or_empty s limit), checkRateLimitExpiry s)
          else issued s < issued (snd (getTopCryptos net limit s)))"
proof -
  let ?c = "checkRateLimitExpiry s"
  from assms have nl: "\<not> isLimited (rateLimitInfo ?c)"
    by (simp add: checkRateLimitExpiry_def time_set_def)
  have lsf: "lastSuccessfulFetch ?c = lastSuccessfulFetch s" and ck: "clock ?c = clock s"
    by (simp_all add: checkRateLimitExpiry_def)
  have fr: "(shouldUseCachedData ?c \<and> apiCache ?c limit \<noteq> None) = cache_fresh s limit"
    using nl by (auto simp: shouldUseCachedData_def cache_fresh_def Let_def lsf ck time_set_def
        split: option.splits)
  show ?thesis
  proof (cases "cache_fresh s limit")
    case True
    with fr have "shouldUseCachedData ?c \<and> apiCache ?c limit \<noteq> None" by simp
    with True nl show ?thesis
      by (auto simp: getTopCryptos_def Let_def cached_or_empty_def)
  next
    case False
    with fr have nf: "\<not> (shouldUseCachedData ?c \<and> apiCache ?c limit \<noteq> None)" by simp
    obtain r e' s1 where fa: "fetch_attempts net limit (Suc 0) None ?c = ((r, e'), s1)"
      by (cases "fetch_attempts net limit (Suc 0) None ?c") auto
    from first_attempt_issues [of ?c net limit None, unfolded One_nat_def] fa have "issued s < issued s1" by simp
    moreover from nf nl have "issued (snd (getTopCryptos net limit s)) = issued s1"
      by (auto simp: getTopCryptos_def Let_def fa split: option.splits)
    ultimately show ?thesis using False nl by simp
  qed
qed

text \<open>Single calls that succeed, are throttled, or are served from the cache.\<close>

lemma attempts_success:
  assumes "attempt \<le> 3" and "net (issued s) = (l, Ok h payload)"
  shows "fetch_attempts net k attempt e s =
           ((Some payload, e),
            (updateRateLimitInfo h (s\<lparr>issued := issued s + 1, clock := clock s + l\<rparr>))
              \<lparr>apiCache := (apiCache s)(k \<mapsto> \<lparr>cache_data = payload, cache_timestamp = clock s + l\<rparr>),
               lastSuccessfulFetch := Some (clock s + l)\<rparr>)"
  using assms
  by (subst fetch_attempts.simps) (simp add: Let_def updateRateLimitInfo_def split: option.splits)

lemma attempts_throttled:
  assumes "attempt \<le> 3" and "net (issued s) = (l, HttpError 429 h)"
  shows "fetch_attempts net k attempt e s =
           ((None, Some (HttpError 429 h)),
            handleRateLimitError (HttpError 429 h) (s\<lparr>issued := issued s + 1, clock := clock s + l\<rparr>))"
  using assms by (subst fetch_attempts.simps) (simp add: Let_def)

lemma getTopCryptos_success:
  assumes "\<not> isLimited (rateLimitInfo (checkRateLimitExpiry s))"
    and "\<not> (shouldUseCachedData (checkRateLimitExpiry s) \<and> apiCache s limit \<noteq> None)"
    and "net (issued s) = (l, Ok h payload)"
  shows "getTopCryptos net limit s =
           (Inr payload,
            (updateRateLimitInfo h
               ((checkRateLimitExpiry s)\<lparr>issued := issued s + 1, clock := clock s + l\<rparr>))
              \<lparr>apiCache := (apiCache s)(limit \<mapsto> \<lparr>cache_data = payload,
                                                  cache_timestamp = clock s + l\<rparr>),
               lastSuccessfulFetch := Some (clock s + l)\<rparr>)"
proof -
  let ?c = "checkRateLimitExpiry s"
  have ck: "clock ?c = clock s" by (simp add: checkRateLimitExpiry_def)
  from assms(3) have "net (issued ?c) = (l, Ok h payload)" by simp
  from attempts_success [where attempt = "Suc 0" and net = net and s = ?c and k = limit and e = None,
      OF _ this] assms(1,2) show ?thesis
    by (auto simp: getTopCryptos_def Let_def ck)
qed

lemma getTopCryptos_throttled:
  assumes "\<not> isLimited (rateLimitInfo (checkRateLimitExpiry s))"
    and "\<not> (shouldUseCachedData (checkRateLimitExpiry s) \<and> apiCache s limit \<noteq> None)"
    and "net (issued s) = (l, HttpError 429 h)"
  shows "getTopCryptos net limit s =
           (Inr (cached_or_empty s limit),
            handleRateLimitError (HttpError 429 h)
              ((checkRateLimitExpiry s)\<lparr>issued := issued s + 1, clock := clock s + l\<rparr>))"
proof -
  let ?c = "checkRateLimitExpiry s"
  have ck: "clock ?c = clock s" by (simp add: checkRateLimitExpiry_def)
  from assms(3) have "net (issued ?c) = (l, HttpError 429 h)" by simp
  from attempts_throttled [where attempt = "Suc 0" and net = net and s = ?c and k = limit and e = None,
      OF _ this] assms(1,2) show ?thesis
    by (auto simp: getTopCryptos_def Let_def ck cached_or_empty_def handleRateLimitError_def)
qed

lemma getTopCryptos_cached:
  assumes "shouldUseCachedData (checkRateLimitExpiry s)" and "apiCache s limit = Some entry"
  shows "getTopCryptos net limit s = (Inr (cache_data entry), checkRateLimitExpiry s)"
  using assms by (simp add: getTopCryptos_def Let_def)

lemma after_success_eq:
  "after_success =
     \<lparr>apiCache = Map.empty(200 \<mapsto> \<lparr>cache_data = [1, 2, 3], cache_timestamp = 1100\<rparr>),
      lastSuccessfulFetch = Some 1100,
      rateLimitInfo = \<lparr>isLimited = False, resetTime = None, retryAfter = None,
                       requestCount = 1, lastRequest = Some 1100\<rparr>,
      clock = 1100, issued = 1\<rparr>"
proof -
  let ?s = "new_fetcher 1000 :: nat fetcher"
  have c: "checkRateLimitExpiry ?s = ?s" by (simp add: checkRateLimitExpiry_def new_fetcher_def)
  have n: "net_scenario (issued ?s) = (100, Ok None [1, 2, 3])"
    by (simp add: net_scenario_def new_fetcher_def)
  have u: "\<not> isLimited (rateLimitInfo (checkRateLimitExpiry ?s))"
    "\<not> (shouldUseCachedData (checkRateLimitExpiry ?s) \<and> apiCache ?s 200 \<noteq> None)"
    by (simp_all add: c) (simp_all add: new_fetcher_def)
  show ?thesis
    unfolding after_success_def
      getTopCryptos_success [where net = net_scenario and s = ?s and limit = 200, OF u n] c
    by (simp add: new_fetcher_def updateRateLimitInfo_def)
qed

text \<open>
  Three 503 responses with an empty cache, and with the entry of a fetch that succeeded
  11 minutes earlier.
\<close>

theorem exhausted_retry_backoff_witness:
  "fst (getTopCryptos net_down 200 (new_fetcher 1000 :: nat fetcher)) = Inr [] \<and>
   issued (snd (getTopCryptos net_down 200 (new_fetcher 1000 :: nat fetcher))) = 3 \<and>
   isLimited (rateLimitInfo (snd (getTopCryptos net_down 200 (new_fetcher 1000 :: nat fetcher)))) \<and>
   resetTime (rateLimitInfo (snd (getTopCryptos net_down 200 (new_fetcher 1000 :: nat fetcher))))
     = Some 68150 \<and>
   fst (getTopCryptos net_down 200 (later 660000 after_success)) = Inr [1, 2, 3] \<and>
   issued (snd (getTopCryptos net_down 200 (later 660000 after_success))) = 4 \<and>
   isLimited (rateLimitInfo (snd (getTopCryptos net_down 200 (later 660000 after_success)))) \<and>
   resetTime (rateLimitInfo (snd (getTopCryptos net_down 200 (later 660000 after_success))))
     = Some 728250"
proof -
  let ?s = "new_fetcher 1000 :: nat fetcher"
  have a: "\<not> isLimited (rateLimitInfo (checkRateLimitExpiry ?s))"
    by (simp add: checkRateLimitExpiry_def new_fetcher_def)
  have b: "\<not> (shouldUseCachedData (checkRateLimitExpiry ?s) \<and> apiCache ?s 200 \<noteq> None)"
    by (simp add: new_fetcher_def)
  have n: "net_down (issued ?s) = (50, HttpError 503 None)"
    "net_down (issued ?s + 1) = (50, HttpError 503 None)"
    "net_down (issued ?s + 2) = (50, HttpError 503 None)"
    by (simp_all add: net_down_def)
  have i: "issued ?s = 0" "clock ?s = 1000" "apiCache ?s 200 = None"
    by (simp_all add: new_fetcher_def)
  let ?t = "later 660000 after_success"
  have c: "checkRateLimitExpiry ?t = ?t"
    by (simp add: checkRateLimitExpiry_def later_def after_success_eq)
  have a': "\<not> isLimited (rateLimitInfo (checkRateLimitExpiry ?t))"
    unfolding c by (simp add: later_def after_success_eq)
  have b': "\<not> (shouldUseCachedData (checkRateLimitExpiry ?t) \<and> apiCache ?t 200 \<noteq> None)"
    unfolding c by (simp add: shouldUseCachedData_def time_set_def later_def after_success_eq)
  have n': "net_down (issued ?t) = (50, HttpError 503 None)"
    "net_down (issued ?t + 1) = (50, HttpError 503 None)"
    "net_down (issued ?t + 2) = (50, HttpError 503 None)"
    by (simp_all add: net_down_def)
  have i': "issued ?t = 1" "clock ?t = 661100"
    "apiCache ?t 200 = Some \<lparr>cache_data = [1, 2, 3], cache_timestamp = 1100\<rparr>"
    by (simp_all add: later_def after_success_eq)
  from exhausted_retry_backoff [where net = net_down and s = ?s and limit = 200, OF a b n] i
  have w1: "fst (getTopCryptos net_down 200 ?s) = Inr [] \<and>
            issued (snd (getTopCryptos net_down 200 ?s)) = 3 \<and>
            isLimited (rateLimitInfo (snd (getTopCryptos net_down 200 ?s))) \<and>
            resetTime (rateLimitInfo (snd (getTopCryptos net_down 200 ?s))) = Some 68150"
    by simp
  from exhausted_retry_backoff [where net = net_down and s = ?t and limit = 200, OF a' b' n'] i'
  have w2: "fst (getTopCryptos net_down 200 ?t) = Inr [1, 2, 3] \<and>
            issued (snd (getTopCryptos net_down 200 ?t)) = 4 \<and>
            isLimited (rateLimitInfo (snd (getTopCryptos net_down 200 ?t))) \<and>
            resetTime (rateLimitInfo (snd (getTopCryptos net_down 200 ?t))) = Some 728250"
    by simp
  from w1 w2 show ?thesis by simp
qed

lemma after_429_eq:
  "after_429 =
     \<lparr>apiCache = Map.empty(200 \<mapsto> \<lparr>cache_data = [1, 2, 3], cache_timestamp = 1100\<rparr>),
      lastSuccessfulFetch = Some 1100,
      rateLimitInfo = \<lparr>isLimited = True, resetTime = Some 122100, retryAfter = Some 120000,
                       requestCount = 1, lastRequest = Some 1100\<rparr>,
      clock = 2100, issued = 2\<rparr>"
proof -
  let ?s = "later 900 after_success"
  have c: "checkRateLimitExpiry ?s = ?s"
    by (simp add: checkRateLimitExpiry_def later_def after_success_eq)
  have n: "net_scenario (issued ?s) = (100, HttpError 429 (Some 120))"
    by (simp add: net_scenario_def later_def after_success_eq)
  have u: "\<not> isLimited (rateLimitInfo (checkRateLimitExpiry ?s))"
    "\<not> (shouldUseCachedData (checkRateLimitExpiry ?s) \<and> apiCache ?s 100 \<noteq> None)"
    by (simp_all add: c) (simp_all add: later_def after_success_eq)
  show ?thesis
    unfolding after_429_def
      getTopCryptos_throttled [where net = net_scenario and s = ?s and limit = 100, OF u n] c
    by (simp add: later_def after_success_eq handleRateLimitError_def)
qed

text \<open>
  C3 (as amended). A call in which a request is answered 429 with a \<open>retry-after\<close> of
  \<open>S\<close> seconds ends with that request, with \<open>isLimited\<close> set and \<open>resetTime\<close> \<open>S\<close>
  seconds after the end of the call. A call made while limited and not after \<open>resetTime\<close>
  returns the data cached for its key, or the empty array, and changes nothing. A call
  made after \<open>resetTime\<close> clears \<open>isLimited\<close> first; it then issues a request, unless the
  cache for its key is fresh, in which case it returns the cached data without a request.
\<close>

theorem throttle_state_machine:
  "(issued s \<le> k \<and> k < issued (snd (getTopCryptos net limit s)) \<and>
    net k = (lat, HttpError 429 (Some S)) \<longrightarrow>
      isLimited (rateLimitInfo (snd (getTopCryptos net limit s))) \<and>
      resetTime (rateLimitInfo (snd (getTopCryptos net limit s)))
        = Some (clock (snd (getTopCryptos net limit s)) + S * 1000) \<and>
      issued (snd (getTopCryptos net limit s)) = Suc k) \<and>
   (isLimited (rateLimitInfo s) \<and> (\<forall>t. resetTime (rateLimitInfo s) = Some t \<longrightarrow> clock s \<le> t) \<longrightarrow>
      getTopCryptos net limit s = (Inr (cached_or_empty s limit), s)) \<and>
   (isLimited (rateLimitInfo s) \<and> resetTime (rateLimitInfo s) = Some t \<and> 0 < t \<and> t < clock s \<longrightarrow>
      \<not> isLimited (rateLimitInfo (checkRateLimitExpiry s)) \<and>
      (if cache_fresh s limit
       then getTopCryptos net limit s = (Inr (cached_or_empty s limit), checkRateLimitExpiry s)
       else issued s < issued (snd (getTopCryptos net limit s))))"
  using throttle_on_429 [of s k net limit lat S] throttled_serves_cache [of s net limit]
    expiry_clears [of s t limit net]
  by blast

text \<open>
  The claim as stated fails in the scenario: 200 seconds after the 429, which is after
  \<open>resetTime\<close>, a call for 200 assets finds the entry cached 201 seconds earlier and
  returns it without a request.
\<close>

theorem throttle_state_machine_counterexample:
  "isLimited (rateLimitInfo (later 200000 after_429)) \<and>
   resetTime (rateLimitInfo (later 200000 after_429)) = Some 122100 \<and>
   clock (later 200000 after_429) = 202100 \<and>
   fst (getTopCryptos net_scenario 200 (later 200000 after_429)) = Inr [1, 2, 3] \<and>
   issued (snd (getTopCryptos net_scenario 200 (later 200000 after_429)))
     = issued (later 200000 after_429)"
proof -
  let ?s = "later 200000 after_429"
  have c: "shouldUseCachedData (checkRateLimitExpiry ?s)"
    by (simp add: shouldUseCachedData_def checkRateLimitExpiry_def later_def after_429_eq
        time_set_def)
  have e: "apiCache ?s 200 = Some \<lparr>cache_data = [1, 2, 3], cache_timestamp = 1100\<rparr>"
    by (simp add: later_def after_429_eq)
  show ?thesis
    unfolding getTopCryptos_cached [where net = net_scenario and s = ?s, OF c e]
    by (simp add: later_def after_429_eq)
qed


theorem throttle_state_machine_witness:
  "isLimited (rateLimitInfo after_429) \<and> resetTime (rateLimitInfo after_429) = Some 122100 \<and>
   issued after_429 = 2 \<and>
   fst (getTopCryptos net_scenario 100 (later 60000 after_429)) = Inr [] \<and>
   issued (snd (getTopCryptos net_scenario 100 (later 60000 after_429))) = 2 \<and>
   2 < issued (snd (getTopCryptos net_scenario 100 (later 200000 after_429)))"
proof -
  let ?s1 = "later 900 after_success"
  have g: "snd (getTopCryptos net_scenario 100 ?s1) = after_429" by (simp add: after_429_def)
  have a1: "issued ?s1 \<le> 1" by (simp add: later_def after_success_eq)
  have a2: "1 < issued (snd (getTopCryptos net_scenario 100 ?s1))"
    unfolding g by (simp add: after_429_eq)
  have a3: "net_scenario 1 = (100, HttpError 429 (Some 120))" by (simp add: net_scenario_def)
  have a4: "clock after_429 = 2100" by (simp add: after_429_eq)
  from throttle_state_machine [of ?s1 1 net_scenario 100 100 120] a1 a2 a3
  have a: "isLimited (rateLimitInfo after_429) \<and>
           resetTime (rateLimitInfo after_429) = Some (clock after_429 + 120 * 1000) \<and>
           issued after_429 = 2"
    unfolding g by simp
  let ?s2 = "later 60000 after_429"
  have b1: "isLimited (rateLimitInfo ?s2)" using a by (simp add: later_def)
  have b2: "\<forall>t. resetTime (rateLimitInfo ?s2) = Some t \<longrightarrow> clock ?s2 \<le> t"
    using a a4 by (simp add: later_def)
  have b3: "cached_or_empty ?s2 100 = []"
    by (simp add: cached_or_empty_def later_def after_429_eq)
  from throttle_state_machine [of ?s2 k net_scenario 100 lat S t] b1 b2
  have b: "getTopCryptos net_scenario 100 ?s2 = (Inr (cached_or_empty ?s2 100), ?s2)"
    by blast
  let ?s3 = "later 200000 after_429"
  have c1: "isLimited (rateLimitInfo ?s3)" using a by (simp add: later_def)
  have c2: "resetTime (rateLimitInfo ?s3) = Some 122100" using a a4 by (simp add: later_def)
  have c3: "(122100::nat) < clock ?s3" using a4 by (simp add: later_def)
  have c4: "\<not> cache_fresh ?s3 100" by (simp add: cache_fresh_def later_def after_429_eq)
  from throttle_state_machine [of ?s3 k net_scenario 100 lat S 122100] c1 c2 c3 c4
  have c: "issued ?s3 < issued (snd (getTopCryptos net_scenario 100 ?s3))"
    by simp
  from a a4 b b3 c show ?thesis by (simp add: later_def)
qed

end
